theory Spec2Isabelle
  imports Complex_Main
begin

section \<open>CalCS: the visualizer script and its launcher\<close>

text \<open>
  The repository has two files. \<^verbatim>\<open>main.py\<close> is a Streamlit script: every interaction
  runs it from its first line to its last. \<^verbatim>\<open>run_app.py\<close> starts the server on it.

  The script is modelled as a function from the widget state of one rerun to the
  sequence of things it puts on the page, together with how the rerun ended. The
  symbolic library (SymPy) is not part of the repository: its four entry points are
  parameters of the model, each of which may raise.

  What the page shows, and in which order, does not depend on how numbers are
  rounded: in the events of the page a number is carried as an exact real. The
  arithmetic of the script is in IEEE doubles; the two places where a statement is
  about the values themselves, line 89 and lines 128 to 132, are embedded a second
  time on doubles (the definitions whose names end in \<open>f64\<close>).
\<close>

subsection \<open>Failures and the script's result\<close>

text \<open>A Python exception (of class \<^verbatim>\<open>Exception\<close>), by its message.\<close>

type_synonym exn = string

text \<open>
  A rerun that does not reach the last line ends in one of two ways: \<^verbatim>\<open>st.stop()\<close>
  ends this rerun only, and an exception that no \<^verbatim>\<open>except\<close> catches aborts it.
\<close>

datatype halt = Stopped | Crashed exn

text \<open>
  A piece of the script: what it rendered, in order, and either why it halted or
  the value it hands on.
\<close>

type_synonym ('x, 'r) script = "'x list \<times> (halt + 'r)"

definition emit :: "'x list \<Rightarrow> ('x, unit) script" where
  "emit evs = (evs, Inr ())"

text \<open>A call outside every \<^verbatim>\<open>try\<close>: what it raises aborts the rerun.\<close>

definition call :: "exn + 'r \<Rightarrow> ('x, 'r) script" where
  "call r = (case r of Inl e \<Rightarrow> ([], Inl (Crashed e)) | Inr v \<Rightarrow> ([], Inr v))"

text \<open>Sequencing: nothing after a halt runs.\<close>

definition and_then :: "('x, 'r) script \<Rightarrow> ('r \<Rightarrow> ('x, 's) script) \<Rightarrow> ('x, 's) script" where
  "and_then m k =
     (case m of
        (evs, Inl h) \<Rightarrow> (evs, Inl h)
      | (evs, Inr v) \<Rightarrow> (case k v of (evs', r) \<Rightarrow> (evs @ evs', r)))"

subsection \<open>Numeric arrays\<close>

text \<open>
  What a lambdified function returns for an array argument: an array, or (when the
  expression does not mention the variable) a single number.
\<close>

datatype npval = Scalar real | Array "real list"

text \<open>
  The callable \<^verbatim>\<open>lambdify\<close> returns, by the two ways the script applies it: to one
  number (\<^verbatim>\<open>f(a)\<close>) and to the sample grid (\<^verbatim>\<open>f(x_vals)\<close>).
\<close>

record callable =
  scalar_call :: "real \<Rightarrow> exn + real"
  array_call :: "real list \<Rightarrow> exn + npval"

text \<open>
  \<^verbatim>\<open>np.linspace(start, stop, num)\<close>: \<open>num\<close> evenly spaced samples, both ends
  included.
\<close>

definition linspace :: "real \<Rightarrow> real \<Rightarrow> nat \<Rightarrow> real list" where
  "linspace start stop num =
     (if num = 1 then [start]
      else map (\<lambda>i. start + real i * ((stop - start) / real (num - 1))) [0..<num])"

text \<open>\<^verbatim>\<open>x_vals = np.linspace(-10, 10, 400)\<close>\<close>

definition x_vals :: "real list" where
  "x_vals = linspace (-10) 10 400"

subsection \<open>Figures\<close>

datatype artist = Line "real list" "real list" | Points "real list" "real list"

type_synonym figure = "artist list"

text \<open>
  \<^verbatim>\<open>ax.plot(x, y)\<close>: the plotting library refuses a \<open>y\<close> whose first dimension is not
  that of \<open>x\<close>; a single number counts as an array of length one.
\<close>

definition plot :: "real list \<Rightarrow> npval \<Rightarrow> exn + artist" where
  "plot xs v =
     (case v of
        Array ys \<Rightarrow>
          if length ys = length xs then Inr (Line xs ys)
          else Inl ''ValueError: x and y must have same first dimension''
      | Scalar y \<Rightarrow>
          if length xs = 1 then Inr (Line xs [y])
          else Inl ''ValueError: x and y must have same first dimension'')"

subsection \<open>The symbolic library and the widget state\<close>

datatype dir = Minus | Plus

text \<open>
  The four functions imported from SymPy, over the library's expressions \<open>'e\<close> and
  the values \<open>'v\<close> its limits return. The variable is always \<^verbatim>\<open>x\<close>, and
  \<^verbatim>\<open>modules=['numpy']\<close>.
\<close>

record ('e, 'v) sympy =
  sympify :: "string \<Rightarrow> exn + 'e"
  lambdify :: "'e \<Rightarrow> exn + callable"
  diff :: "'e \<Rightarrow> exn + 'e"
  limit :: "'e \<Rightarrow> real \<Rightarrow> dir \<Rightarrow> exn + 'v"

text \<open>
  What the widgets return in one rerun: the text field, the two sliders (\<^verbatim>\<open>a\<close> and
  \<^verbatim>\<open>limit_point\<close>), the animation button and the five solution buttons.
\<close>

record widgets =
  func_input :: string
  slider_a :: real
  limit_point :: real
  run_animation :: bool
  show_solution :: "nat \<Rightarrow> bool"

text \<open>
  One constructor per call that puts something on the page (or, for \<open>Sleep\<close>, waits).
  Static text is named by its label; emoji in the labels are left out.
\<close>

datatype ('e, 'v) event =
    PageConfig
  | Title
  | Expander string
  | SidebarHeader string
  | TextInput string
  | ErrorParse exn
  | Header string
  | Slider string
  | Pyplot figure
  | MarkdownDerivative 'e
  | MarkdownDerivativeAt real real
  | LatexLeftLimit real 'v
  | LatexRightLimit real 'v
  | SuccessLimitExists 'v
  | ErrorLimitDoesNotExist
  | ErrorLimit exn
  | Button string
  | Empty
  | PlaceholderPyplot figure
  | Sleep real
  | ProblemMarkdown nat
  | SolutionLatex nat nat

subsection \<open>Setup: lines 8 to 46\<close>

definition page_top :: "('e, 'v) event list" where
  "page_top =
     [PageConfig, Title, Expander ''About This Project'',
      SidebarHeader ''Function Settings'', TextInput ''Enter a function of x:'']"

text \<open>The handler of the first \<^verbatim>\<open>try\<close>: \<^verbatim>\<open>st.error(...)\<close>, then \<^verbatim>\<open>st.stop()\<close>.\<close>

definition parse_failed :: "exn \<Rightarrow> (('e, 'v) event, 'r) script" where
  "parse_failed e = ([ErrorParse e], Inl Stopped)"

definition parse_stage ::
  "('e, 'v) sympy \<Rightarrow> string \<Rightarrow> (('e, 'v) event, 'e \<times> callable \<times> 'e \<times> callable) script" where
  "parse_stage S text =
     (case sympify S text of
        Inl e \<Rightarrow> parse_failed e
      | Inr expr \<Rightarrow>
          (case lambdify S expr of
             Inl e \<Rightarrow> parse_failed e
           | Inr f \<Rightarrow>
               (case diff S expr of
                  Inl e \<Rightarrow> parse_failed e
                | Inr f_prime_expr \<Rightarrow>
                    (case lambdify S f_prime_expr of
                       Inl e \<Rightarrow> parse_failed e
                     | Inr f_prime \<Rightarrow> ([], Inr (expr, f, f_prime_expr, f_prime))))))"

definition learn_the_concepts :: "('e, 'v) event list" where
  "learn_the_concepts =
     [Header ''Learn the Concepts'', Expander ''What is a Limit?'',
      Expander ''What is a Derivative?'', Expander ''From Secant to Tangent'']"

subsection \<open>Tangent line visualizer: lines 87 to 104\<close>

text \<open>One entry of \<^verbatim>\<open>f(a) + f_prime(a) * (x_vals - a)\<close>.\<close>

definition tangent_at :: "real \<Rightarrow> real \<Rightarrow> real \<Rightarrow> real \<Rightarrow> real" where
  "tangent_at fa fpa a x = fa + fpa * (x - a)"

definition tangent_line :: "real \<Rightarrow> real \<Rightarrow> real \<Rightarrow> real list" where
  "tangent_line fa fpa a = map (tangent_at fa fpa a) x_vals"

definition tangent_section ::
  "callable \<Rightarrow> callable \<Rightarrow> 'e \<Rightarrow> npval \<Rightarrow> real \<Rightarrow> (('e, 'v) event, unit) script" where
  "tangent_section f f_prime f_prime_expr y_vals a =
     and_then (emit [Header ''Tangent Line Visualizer'', Slider ''Choose x-value for tangent:'']) (\<lambda>_.
     and_then (call (scalar_call f a)) (\<lambda>fa.
     and_then (call (scalar_call f_prime a)) (\<lambda>fpa.
     and_then (call (plot x_vals y_vals)) (\<lambda>curve.
     and_then (call (plot x_vals (Array (tangent_line fa fpa a)))) (\<lambda>tangent.
       emit [Pyplot [curve, tangent, Points [a] [fa]],
             MarkdownDerivative f_prime_expr,
             MarkdownDerivativeAt a fpa])))))"

subsection \<open>Limit calculator: lines 107 to 122\<close>

text \<open>
  Both limits are computed inside one \<^verbatim>\<open>try\<close>, whose handler reports the exception
  and lets the script go on. The comparison \<^verbatim>\<open>lim_left == lim_right\<close> is SymPy's
  equality of expressions, which is structural: it is the equality of \<open>'v\<close>.
\<close>

definition limit_section :: "('e, 'v) sympy \<Rightarrow> 'e \<Rightarrow> real \<Rightarrow> ('e, 'v) event list" where
  "limit_section S expr p =
     [Header ''Limit Calculator'', Slider ''Choose x-value for limit:''] @
     (case limit S expr p Minus of
        Inl e \<Rightarrow> [ErrorLimit e]
      | Inr lim_left \<Rightarrow>
          (case limit S expr p Plus of
             Inl e \<Rightarrow> [ErrorLimit e]
           | Inr lim_right \<Rightarrow>
               [LatexLeftLimit p lim_left, LatexRightLimit p lim_right] @
               (if lim_left = lim_right then [SuccessLimitExists lim_left]
                else [ErrorLimitDoesNotExist])))"

subsection \<open>Secant animation: lines 125 to 143\<close>

text \<open>\<^verbatim>\<open>h_vals = np.linspace(1.0, 0.01, 20)\<close>\<close>

definition h_vals :: "real list" where
  "h_vals = linspace 1 (1 / 100) 20"

text \<open>The divisor \<^verbatim>\<open>x1 - x0\<close> of the slope, with \<^verbatim>\<open>x0, x1 = a, a + h\<close>.\<close>

definition slope_divisor :: "real \<Rightarrow> real \<Rightarrow> real" where
  "slope_divisor a h = (let x0 = a; x1 = a + h in x1 - x0)"

text \<open>\<^verbatim>\<open>slope = (y1 - y0) / (x1 - x0)\<close>\<close>

definition secant_slope :: "real \<Rightarrow> real \<Rightarrow> real \<Rightarrow> real \<Rightarrow> real" where
  "secant_slope y0 y1 a h = (y1 - y0) / slope_divisor a h"

text \<open>\<^verbatim>\<open>secant = slope * (x_vals - x0) + y0\<close>\<close>

definition secant :: "real \<Rightarrow> real \<Rightarrow> real \<Rightarrow> real \<Rightarrow> real list" where
  "secant y0 y1 a h = map (\<lambda>x. secant_slope y0 y1 a h * (x - a) + y0) x_vals"

text \<open>One pass of the loop body.\<close>

definition secant_frame :: "callable \<Rightarrow> npval \<Rightarrow> real \<Rightarrow> real \<Rightarrow> (('e, 'v) event, unit) script" where
  "secant_frame f y_vals a h =
     and_then (call (plot x_vals y_vals)) (\<lambda>curve.
     and_then (call (scalar_call f a)) (\<lambda>y0.
     and_then (call (scalar_call f (a + h))) (\<lambda>y1.
     and_then (call (plot x_vals (Array (secant y0 y1 a h)))) (\<lambda>chord.
       emit [PlaceholderPyplot [curve, chord, Points [a, a + h] [y0, y1]],
             Sleep (2 / 10)]))))"

text \<open>The \<^verbatim>\<open>for h in h_vals\<close> loop.\<close>

fun animate :: "callable \<Rightarrow> npval \<Rightarrow> real \<Rightarrow> real list \<Rightarrow> (('e, 'v) event, unit) script" where
  "animate f y_vals a [] = emit []"
| "animate f y_vals a (h # hs) =
     and_then (secant_frame f y_vals a h) (\<lambda>_. animate f y_vals a hs)"

definition animation_section ::
  "callable \<Rightarrow> npval \<Rightarrow> real \<Rightarrow> bool \<Rightarrow> (('e, 'v) event, unit) script" where
  "animation_section f y_vals a pressed =
     and_then (emit [Header ''Animation: Secant Line to Tangent'', Button ''Run Animation'']) (\<lambda>_.
       if pressed then and_then (emit [Empty]) (\<lambda>_. animate f y_vals a h_vals)
       else emit [])"

subsection \<open>Static sections: lines 146 to 188\<close>

definition problem :: "nat \<Rightarrow> string \<Rightarrow> string \<Rightarrow> nat \<Rightarrow> bool \<Rightarrow> ('e, 'v) event list" where
  "problem k title button n pressed =
     [Expander title, ProblemMarkdown k, Button button] @
     (if pressed then map (SolutionLatex k) [1..<Suc n] else [])"

definition problem_set :: "(nat \<Rightarrow> bool) \<Rightarrow> ('e, 'v) event list" where
  "problem_set pressed =
     Header ''Problem Set'' #
     problem 1 ''Try This: Derivative at a Point'' ''Show Solution 1'' 2 (pressed 1) @
     problem 2 ''Try This: Limit at a Point'' ''Show Solution 2'' 1 (pressed 2) @
     problem 3 ''Try This: One-Sided Limit'' ''Show Solution 3'' 1 (pressed 3) @
     problem 4 ''Try This: Power Rule'' ''Show Solution 4'' 1 (pressed 4) @
     problem 5 ''Try This: Tangent Line Equation'' ''Show Solution 5'' 3 (pressed 5)"

definition real_world_application :: "('e, 'v) event list" where
  "real_world_application =
     [Header ''Real-World Application'', Expander ''Velocity of a Moving Car'']"

subsection \<open>The whole script\<close>

definition run :: "('e, 'v) sympy \<Rightarrow> widgets \<Rightarrow> (('e, 'v) event, unit) script" where
  "run S w =
     and_then (emit page_top) (\<lambda>_.
     and_then (parse_stage S (func_input w)) (\<lambda>(expr, f, f_prime_expr, f_prime).
     and_then (call (array_call f x_vals)) (\<lambda>y_vals.
     and_then (emit learn_the_concepts) (\<lambda>_.
     and_then (tangent_section f f_prime f_prime_expr y_vals (slider_a w)) (\<lambda>_.
     and_then (emit (limit_section S expr (limit_point w))) (\<lambda>_.
     and_then (animation_section f y_vals (slider_a w) (run_animation w)) (\<lambda>_.
       emit (problem_set (show_solution w) @ real_world_application))))))))"

subsection \<open>The launcher: \<^verbatim>\<open>run_app.py\<close>\<close>

text \<open>\<^verbatim>\<open>os.path.dirname\<close> and \<^verbatim>\<open>os.path.join\<close> of two parts, as \<^verbatim>\<open>posixpath\<close> has them.\<close>

definition rstrip_slash :: "string \<Rightarrow> string" where
  "rstrip_slash s = rev (dropWhile (\<lambda>c. c = CHR ''/'') (rev s))"

definition dirname :: "string \<Rightarrow> string" where
  "dirname p =
     (let head = rev (dropWhile (\<lambda>c. c \<noteq> CHR ''/'') (rev p))
      in if head \<noteq> [] \<and> head \<noteq> replicate (length head) CHR ''/''
         then rstrip_slash head else head)"

definition join :: "string \<Rightarrow> string \<Rightarrow> string" where
  "join a b =
     (if take 1 b = ''/'' then b
      else if a = [] \<or> last a = CHR ''/'' then a @ b
      else a @ ''/'' @ b)"

definition app_path :: "string \<Rightarrow> string" where
  "app_path file = join (dirname file) ''/home/execu/Programming/CalCS/jb/main.py''"

datatype action = Popen string | OpenBrowser string

text \<open>The launcher's two calls; \<open>file\<close> is \<^verbatim>\<open>__file__\<close>.\<close>

definition launcher :: "string \<Rightarrow> action list" where
  "launcher file =
     [Popen (''streamlit run '' @ [CHR 0x22] @ app_path file @ [CHR 0x22]),
      OpenBrowser ''http://localhost:8501'']"

subsection \<open>The difference quotients in exact arithmetic\<close>

text \<open>
  The quotients \<open>(g(a + h) - g(a)) / h\<close> over the 20 values of \<open>h\<close>, in order, for a real
  function \<open>g\<close>, with no rounding: what the slopes of the loop would be in exact
  arithmetic. The slopes the loop computes are \<open>secant_slopes_f64\<close> below.
\<close>

definition exact_slopes :: "(real \<Rightarrow> real) \<Rightarrow> real \<Rightarrow> real list" where
  "exact_slopes g a = map (\<lambda>h. secant_slope (g a) (g (a + h)) a h) h_vals"

text \<open>A sequence no entry of which is farther from \<open>t\<close> than an earlier entry.\<close>

definition approaches_monotonically :: "real list \<Rightarrow> real \<Rightarrow> bool" where
  "approaches_monotonically ss t = sorted_wrt (\<lambda>s s'. \<bar>s' - t\<bar> \<le> \<bar>s - t\<bar>) ss"

text \<open>\<open>g\<close> is convex on the interval from \<open>a\<close> to \<open>a + 1\<close>, which holds every \<open>a + h\<close>.\<close>

definition convex_on_unit :: "(real \<Rightarrow> real) \<Rightarrow> real \<Rightarrow> bool" where
  "convex_on_unit g a =
     (\<forall>x y t. a \<le> x \<and> x \<le> a + 1 \<and> a \<le> y \<and> y \<le> a + 1 \<and> 0 \<le> t \<and> t \<le> 1
        \<longrightarrow> g ((1 - t) * x + t * y) \<le> (1 - t) * g x + t * g y)"

subsection \<open>IEEE doubles\<close>

text \<open>
  The numbers of the script are binary64 values: Python floats and NumPy
  \<^verbatim>\<open>float64\<close>. A double is a finite value, an infinity or NaN; \<open>Finite\<close> carries
  the value as a real, and \<open>is_f64\<close> below says that a real is a double. The two
  zeros are not told apart: they differ in the sign of a quotient by zero only, which
  nothing below depends on.
\<close>

datatype double = Finite real | PInf | NInf | NaN

text \<open>
  Rounding to nearest, ties to even. \<open>expo r\<close> is the exponent of the binade of \<open>r\<close>,
  not below that of the subnormals; \<open>quantum r\<close> is the distance between neighbouring
  doubles there, with 53 bits of significand.
\<close>

definition expo :: "real \<Rightarrow> int" where
  "expo r = max \<lfloor>log 2 \<bar>r\<bar>\<rfloor> (- 1022)"

definition quantum :: "real \<Rightarrow> real" where
  "quantum r = 2 powi (expo r - 52)"

definition rne :: "real \<Rightarrow> int" where
  "rne t =
     (let n = \<lfloor>t\<rfloor>; d = t - of_int n
      in if d < 1 / 2 then n else if 1 / 2 < d then n + 1 else if even n then n else n + 1)"

definition round_f64 :: "real \<Rightarrow> real" where
  "round_f64 r = (if r = 0 then 0 else quantum r * of_int (rne (r / quantum r)))"

text \<open>A result that rounds to \<open>2\<^sup>1\<^sup>0\<^sup>2\<^sup>4\<close> or beyond overflows to an infinity.\<close>

definition fl_round :: "real \<Rightarrow> double" where
  "fl_round r =
     (let v = round_f64 r
      in if 2 powi 1024 \<le> \<bar>v\<bar> then (if 0 < v then PInf else NInf) else Finite v)"

text \<open>The reals that are doubles.\<close>

definition is_f64 :: "real \<Rightarrow> bool" where
  "is_f64 x = (round_f64 x = x \<and> \<bar>x\<bar> < 2 powi 1024)"

text \<open>
  The operations of the script on doubles, each the exact result rounded. An invalid
  operation gives NaN. A division by zero gives an infinity or NaN, as NumPy's
  \<^verbatim>\<open>float64\<close> does (the divisor of line 132 is a \<^verbatim>\<open>float64\<close>, since \<^verbatim>\<open>h\<close> is).
\<close>

fun fl_neg :: "double \<Rightarrow> double" where
  "fl_neg (Finite u) = Finite (- u)"
| "fl_neg PInf = NInf"
| "fl_neg NInf = PInf"
| "fl_neg NaN = NaN"

fun is_neg :: "double \<Rightarrow> bool" where
  "is_neg (Finite u) = (u < 0)"
| "is_neg NInf = True"
| "is_neg PInf = False"
| "is_neg NaN = False"

fun fl_add :: "double \<Rightarrow> double \<Rightarrow> double" where
  "fl_add NaN y = NaN"
| "fl_add x NaN = NaN"
| "fl_add (Finite u) (Finite v) = fl_round (u + v)"
| "fl_add PInf NInf = NaN"
| "fl_add NInf PInf = NaN"
| "fl_add PInf y = PInf"
| "fl_add NInf y = NInf"
| "fl_add x PInf = PInf"
| "fl_add x NInf = NInf"

definition fl_sub :: "double \<Rightarrow> double \<Rightarrow> double" where
  "fl_sub x y = fl_add x (fl_neg y)"

fun fl_mul :: "double \<Rightarrow> double \<Rightarrow> double" where
  "fl_mul NaN y = NaN"
| "fl_mul x NaN = NaN"
| "fl_mul (Finite u) (Finite v) = fl_round (u * v)"
| "fl_mul x y =
     (if x = Finite 0 \<or> y = Finite 0 then NaN
      else if is_neg x = is_neg y then PInf else NInf)"

fun fl_div :: "double \<Rightarrow> double \<Rightarrow> double" where
  "fl_div NaN y = NaN"
| "fl_div x NaN = NaN"
| "fl_div (Finite u) (Finite v) =
     (if v = 0 then (if u = 0 then NaN else if u < 0 then NInf else PInf)
      else fl_round (u / v))"
| "fl_div (Finite u) y = Finite 0"
| "fl_div x (Finite v) = (if is_neg x = (v < 0) then PInf else NInf)"
| "fl_div x y = NaN"

text \<open>
  \<^verbatim>\<open>np.linspace(start, stop, num)\<close> as NumPy computes it: \<^verbatim>\<open>step = (stop - start) / (num - 1)\<close>,
  entry \<open>i\<close> is \<^verbatim>\<open>i * step + start\<close> (when the step underflows to zero,
  \<^verbatim>\<open>i / (num - 1) * (stop - start) + start\<close>), and the last entry is then set to
  \<^verbatim>\<open>stop\<close>.
\<close>

definition linspace_f64 :: "double \<Rightarrow> double \<Rightarrow> nat \<Rightarrow> double list" where
  "linspace_f64 start stop num =
     (let divisor = num - 1;
          delta = fl_sub stop start;
          y = (if 0 < divisor then
                 (let step = fl_div delta (Finite (real divisor))
                  in if step = Finite 0
                     then map (\<lambda>i. fl_add (fl_mul (fl_div (Finite (real i)) (Finite (real divisor))) delta) start)
                            [0..<num]
                     else map (\<lambda>i. fl_add (fl_mul (Finite (real i)) step) start) [0..<num])
               else map (\<lambda>i. fl_add (fl_mul (Finite (real i)) delta) start) [0..<num])
      in if 1 < num then butlast y @ [stop] else y)"

text \<open>\<^verbatim>\<open>x_vals = np.linspace(-10, 10, 400)\<close> and \<^verbatim>\<open>h_vals = np.linspace(1.0, 0.01, 20)\<close>\<close>

definition x_vals_f64 :: "double list" where
  "x_vals_f64 = linspace_f64 (Finite (- 10)) (Finite 10) 400"

definition h_vals_f64 :: "double list" where
  "h_vals_f64 = linspace_f64 (Finite 1) (fl_round (1 / 100)) 20"

text \<open>
  Line 89, \<^verbatim>\<open>tangent_line = f(a) + f_prime(a) * (x_vals - a)\<close>: the subtraction, then the
  product, then the sum, for each entry of the grid.
\<close>

definition tangent_at_f64 :: "double \<Rightarrow> double \<Rightarrow> double \<Rightarrow> double \<Rightarrow> double" where
  "tangent_at_f64 fa fpa a x = fl_add fa (fl_mul fpa (fl_sub x a))"

definition tangent_line_f64 :: "double \<Rightarrow> double \<Rightarrow> double \<Rightarrow> double list" where
  "tangent_line_f64 fa fpa a = map (tangent_at_f64 fa fpa a) x_vals_f64"

text \<open>
  Lines 131 to 133: \<^verbatim>\<open>x0, x1 = a, a + h\<close>, \<^verbatim>\<open>y0, y1 = f(x0), f(x1)\<close> and
  \<^verbatim>\<open>slope = (y1 - y0) / (x1 - x0)\<close>. In \<open>secant_slopes_f64\<close> the callable is a
  function on doubles, and the list is the slopes of the 20 passes in order.
\<close>

definition slope_divisor_f64 :: "double \<Rightarrow> double \<Rightarrow> double" where
  "slope_divisor_f64 a h = (let x0 = a; x1 = fl_add a h in fl_sub x1 x0)"

definition secant_slope_f64 :: "double \<Rightarrow> double \<Rightarrow> double \<Rightarrow> double \<Rightarrow> double" where
  "secant_slope_f64 y0 y1 a h = fl_div (fl_sub y1 y0) (slope_divisor_f64 a h)"

definition secant_slopes_f64 :: "(double \<Rightarrow> double) \<Rightarrow> double \<Rightarrow> double list" where
  "secant_slopes_f64 f a = map (\<lambda>h. secant_slope_f64 (f a) (f (fl_add a h)) a h) h_vals_f64"

subsection \<open>Concrete inputs\<close>

text \<open>
  The inputs at which the theorems below are instantiated. The first two are the
  callables \<^verbatim>\<open>lambdify\<close> generates for the expression \<^verbatim>\<open>x\<close> (source text
  \<^verbatim>\<open>return x\<close>) and for a constant \<open>c\<close> (source text \<^verbatim>\<open>return c\<close>: a single
  number, whatever the argument).
\<close>

definition identity_callable :: callable where
  "identity_callable = \<lparr>scalar_call = (\<lambda>x. Inr x), array_call = (\<lambda>xs. Inr (Array xs))\<rparr>"

definition constant_callable :: "real \<Rightarrow> callable" where
  "constant_callable c = \<lparr>scalar_call = (\<lambda>_. Inr c), array_call = (\<lambda>_. Inr (Scalar c))\<rparr>"

text \<open>
  A stand-in for the library that knows the texts \<^verbatim>\<open>x\<close> and \<^verbatim>\<open>5\<close> only, with
  expressions kept as text; what its limits answer is left to the argument.
\<close>

definition stand_in :: "(real \<Rightarrow> dir \<Rightarrow> exn + real) \<Rightarrow> (string, real) sympy" where
  "stand_in answer =
     \<lparr>sympify = (\<lambda>s. if s = ''x'' \<or> s = ''5'' then Inr s else Inl ''SympifyError''),
      lambdify = (\<lambda>e. Inr (if e = ''x'' then identity_callable
                            else if e = ''5'' then constant_callable 5
                            else if e = ''1'' then constant_callable 1
                            else constant_callable 0)),
      diff = (\<lambda>e. Inr (if e = ''x'' then ''1'' else ''0'')),
      limit = (\<lambda>e. answer)\<rparr>"

text \<open>A widget state with no solution button pressed.\<close>

definition moved :: "string \<Rightarrow> real \<Rightarrow> real \<Rightarrow> bool \<Rightarrow> widgets" where
  "moved text a p pressed =
     \<lparr>func_input = text, slider_a = a, limit_point = p, run_animation = pressed,
      show_solution = (\<lambda>_. False)\<rparr>"

section \<open>Basic facts\<close>

lemma and_then_emit [simp]: "and_then (emit evs) k = (case k () of (evs', r) \<Rightarrow> (evs @ evs', r))"
  by (simp add: and_then_def emit_def)

lemma and_then_call_Inl [simp]: "and_then (call (Inl e)) k = ([], Inl (Crashed e))"
  by (simp add: and_then_def call_def)

lemma and_then_call_Inr [simp]: "and_then (call (Inr v)) k = k v"
  by (simp add: and_then_def call_def split: prod.splits)

lemma and_then_halt [simp]: "and_then (evs, Inl h) k = (evs, Inl h)"
  by (simp add: and_then_def)

lemma and_then_value [simp]: "and_then (evs, Inr v) k = (case k v of (evs', r) \<Rightarrow> (evs @ evs', r))"
  by (simp add: and_then_def)

subsection \<open>The two grids\<close>

lemma length_linspace: "length (linspace s e n) = n"
  by (simp add: linspace_def)

lemma nth_linspace:
  "i < n \<Longrightarrow> n \<noteq> 1 \<Longrightarrow> linspace s e n ! i = s + real i * ((e - s) / real (n - 1))"
  by (simp add: linspace_def)

lemma length_x_vals: "length x_vals = 400"
  by (simp add: x_vals_def length_linspace)

lemma nth_x_vals: "i < 400 \<Longrightarrow> x_vals ! i = -10 + real i * (20 / 399)"
  by (simp add: x_vals_def nth_linspace)

lemma length_h_vals: "length h_vals = 20"
  by (simp add: h_vals_def length_linspace)

lemma nth_h_vals: "i < 20 \<Longrightarrow> h_vals ! i = 1 - real i * (99 / 1900)"
  by (simp add: h_vals_def nth_linspace)

lemma h_vals_nonempty: "h_vals \<noteq> []"
  using length_h_vals by auto

lemma hd_h_vals: "hd h_vals = 1"
  using nth_h_vals [of 0] by (simp add: hd_conv_nth [OF h_vals_nonempty])

lemma last_h_vals: "last h_vals = 1 / 100"
  using nth_h_vals [of 19] by (simp add: last_conv_nth [OF h_vals_nonempty] length_h_vals)

lemma h_vals_descending: "sorted_wrt (\<lambda>h h'. h' < h) h_vals"
  by (simp add: sorted_wrt_iff_nth_less length_h_vals nth_h_vals)

lemma h_vals_bounds:
  assumes "h \<in> set h_vals"
  shows "1 / 100 \<le> h \<and> h \<le> 1"
proof -
  from assms obtain i where i: "i < 20" and h: "h = h_vals ! i"
    by (auto simp: in_set_conv_nth length_h_vals)
  have "real i \<le> 19" using i by simp
  then show ?thesis by (simp add: h nth_h_vals i)
qed

lemma plot_grid [simp]: "plot x_vals (Array x_vals) = Inr (Line x_vals x_vals)"
  by (simp add: plot_def)

subsection \<open>Sections that run to their end\<close>

lemma tangent_section_ok:
  assumes "scalar_call f a = Inr fa" and "scalar_call f_prime a = Inr fpa"
    and "plot x_vals y_vals = Inr curve"
  shows "tangent_section f f_prime f_prime_expr y_vals a =
           ([Header ''Tangent Line Visualizer'', Slider ''Choose x-value for tangent:'',
             Pyplot [curve, Line x_vals (tangent_line fa fpa a), Points [a] [fa]],
             MarkdownDerivative f_prime_expr, MarkdownDerivativeAt a fpa], Inr ())"
proof -
  have "plot x_vals (Array (tangent_line fa fpa a)) = Inr (Line x_vals (tangent_line fa fpa a))"
    by (simp add: plot_def tangent_line_def)
  with assms show ?thesis
    by (simp add: tangent_section_def emit_def)
qed

lemma secant_frame_ok:
  assumes "plot x_vals y_vals = Inr curve" and "scalar_call f a = Inr y0"
    and "scalar_call f (a + h) = Inr y1"
  shows "secant_frame f y_vals a h =
    ([PlaceholderPyplot [curve, Line x_vals (secant y0 y1 a h), Points [a, a + h] [y0, y1]],
      Sleep (2 / 10)], Inr ())"
proof -
  have "plot x_vals (Array (secant y0 y1 a h)) = Inr (Line x_vals (secant y0 y1 a h))"
    by (simp add: plot_def secant_def)
  with assms show ?thesis
    by (simp add: secant_frame_def emit_def)
qed

lemma animate_ok:
  assumes "plot x_vals y_vals = Inr curve" and "scalar_call f a = Inr (g a)"
    and "\<forall>h\<in>set hs. scalar_call f (a + h) = Inr (g (a + h))"
  shows "animate f y_vals a hs =
    (concat (map (\<lambda>h. [PlaceholderPyplot
        [curve, Line x_vals (secant (g a) (g (a + h)) a h), Points [a, a + h] [g a, g (a + h)]],
        Sleep (2 / 10)]) hs), Inr ())"
  using assms(3)
proof (induction hs)
  case Nil
  then show ?case by (simp add: emit_def)
next
  case (Cons h hs)
  then show ?case
    by (simp add: secant_frame_ok [OF assms(1) assms(2)])
qed

lemma animation_section_ok:
  assumes "plot x_vals y_vals = Inr curve" and "scalar_call f a = Inr (g a)"
    and "\<forall>h\<in>set h_vals. scalar_call f (a + h) = Inr (g (a + h))"
  shows "animation_section f y_vals a True =
           ([Header ''Animation: Secant Line to Tangent'', Button ''Run Animation'', Empty] @
            concat (map (\<lambda>h. [PlaceholderPyplot
                [curve, Line x_vals (secant (g a) (g (a + h)) a h),
                 Points [a, a + h] [g a, g (a + h)]],
                Sleep (2 / 10)]) h_vals), Inr ())"
  by (simp add: animation_section_def emit_def animate_ok [OF assms])

lemma length_concat_pairs: "length (concat (map (\<lambda>h. [p h, q h]) hs)) = 2 * length hs"
  by (induction hs) auto

subsection \<open>The loop is bounded\<close>

text \<open>Whatever \<open>f\<close> does, the animation is at most 20 frames and 20 pauses.\<close>

lemma secant_frame_bounded: "length (fst (secant_frame f y_vals a h)) \<le> 2"
  by (simp add: secant_frame_def and_then_def call_def emit_def split: sum.splits prod.splits)

lemma animate_bounded:
  "length (fst (animate f y_vals a hs :: (('e, 'v) event, unit) script)) \<le> 2 * length hs"
proof (induction hs)
  case Nil
  then show ?case by (simp add: emit_def)
next
  case (Cons h hs)
  obtain evs r where frame: "(secant_frame f y_vals a h :: (('e, 'v) event, unit) script) = (evs, r)"
    by (cases "secant_frame f y_vals a h :: (('e, 'v) event, unit) script")
  have "length evs \<le> 2"
    using secant_frame_bounded [of f y_vals a h, where ?'a = 'e and ?'b = 'v] frame by simp
  with Cons.IH show ?case
    by (cases r; cases "animate f y_vals a hs :: (('e, 'v) event, unit) script")
       (simp_all add: frame)
qed

lemma animation_section_bounded:
  "length (fst (animation_section f y_vals a pressed :: (('e, 'v) event, unit) script)) \<le> 43"
proof -
  have "length (fst (animate f y_vals a h_vals :: (('e, 'v) event, unit) script)) \<le> 40"
    using animate_bounded [of f y_vals a h_vals, where ?'e = 'e and ?'v = 'v]
    by (simp add: length_h_vals)
  then show ?thesis
    by (cases "animate f y_vals a h_vals :: (('e, 'v) event, unit) script")
       (simp add: animation_section_def emit_def)
qed

subsection \<open>Chords of a convex function\<close>

lemma secant_slope_eq: "secant_slope y0 y1 a h = (y1 - y0) / h"
  by (simp add: secant_slope_def slope_divisor_def)

lemma chord_slope_mono:
  assumes cv: "convex_on_unit g a" and h: "0 < h1" "h1 \<le> h2" "h2 \<le> 1"
  shows "(g (a + h1) - g a) / h1 \<le> (g (a + h2) - g a) / h2"
proof -
  define t where "t = h1 / h2"
  have h2: "0 < h2" using h by linarith
  have t: "0 \<le> t" "t \<le> 1" using h h2 by (simp_all add: t_def)
  have h1: "h1 = t * h2" using h2 by (simp add: t_def)
  have "(1 - t) * a + t * (a + h2) = a + h1"
    by (simp add: h1 algebra_simps)
  moreover have "g ((1 - t) * a + t * (a + h2)) \<le> (1 - t) * g a + t * g (a + h2)"
    using cv t h h2 unfolding convex_on_unit_def by simp
  ultimately have "g (a + h1) - g a \<le> t * (g (a + h2) - g a)"
    by (simp add: algebra_simps)
  then have "(g (a + h1) - g a) / h1 \<le> t * (g (a + h2) - g a) / h1"
    using h(1) by (simp add: divide_right_mono)
  also have "t * (g (a + h2) - g a) / h1 = (g (a + h2) - g a) / h2"
    using h(1) h2 by (simp add: t_def)
  finally show ?thesis .
qed

lemma chord_slope_ge_deriv:
  assumes d: "DERIV g a :> D" and cv: "convex_on_unit g a" and h: "0 < h" "h \<le> 1"
  shows "D \<le> (g (a + h) - g a) / h"
proof -
  have "((\<lambda>k. (g (a + k) - g a) / k) \<longlongrightarrow> D) (at 0)"
    using d by (rule DERIV_D)
  then have lim: "((\<lambda>k. (g (a + k) - g a) / k) \<longlongrightarrow> D) (at_right 0)"
    by (rule tendsto_mono [rotated]) (simp add: at_le)
  have "eventually (\<lambda>k. (g (a + k) - g a) / k \<le> (g (a + h) - g a) / h) (at_right 0)"
    unfolding eventually_at_right_field
  proof (intro exI conjI allI impI)
    show "0 < h" by fact
  next
    fix k :: real assume "0 < k" "k < h"
    then show "(g (a + k) - g a) / k \<le> (g (a + h) - g a) / h"
      using chord_slope_mono [OF cv, of k h] h by simp
  qed
  with lim show ?thesis
    by (rule tendsto_upperbound) simp
qed

lemma convex_slopes_approach:
  assumes d: "DERIV g a :> D" and cv: "convex_on_unit g a"
  shows "approaches_monotonically (exact_slopes g a) D"
proof -
  have step: "\<bar>(g (a + h') - g a) / h' - D\<bar> \<le> \<bar>(g (a + h) - g a) / h - D\<bar>"
    if "h \<in> set h_vals" "h' \<in> set h_vals" "h' < h" for h h'
  proof -
    have b: "0 < h'" "h' \<le> h" "h \<le> 1" "h' \<le> 1" "0 < h"
      using h_vals_bounds [OF that(1)] h_vals_bounds [OF that(2)] that(3) by simp_all
    have "D \<le> (g (a + h') - g a) / h'"
      by (rule chord_slope_ge_deriv [OF d cv b(1) b(4)])
    moreover have "(g (a + h') - g a) / h' \<le> (g (a + h) - g a) / h"
      by (rule chord_slope_mono [OF cv b(1) b(2) b(3)])
    ultimately show ?thesis by simp
  qed
  have "sorted_wrt (\<lambda>h h'. \<bar>(g (a + h') - g a) / h' - D\<bar> \<le> \<bar>(g (a + h) - g a) / h - D\<bar>) h_vals"
    using h_vals_descending
    by (rule sorted_wrt_mono_rel [rotated]) (simp add: step)
  then show ?thesis
    by (simp add: approaches_monotonically_def exact_slopes_def sorted_wrt_map secant_slope_eq)
qed

lemma exact_slopes_uminus: "exact_slopes (\<lambda>x. - g x) a = map uminus (exact_slopes g a)"
proof -
  have "(- u - - v) / h = - ((u - v) / h)" for u v h :: real
  proof -
    have "- u - - v = - (u - v)" by simp
    then show ?thesis by (simp only: minus_divide_left)
  qed
  then show ?thesis
    unfolding exact_slopes_def secant_slope_eq list.map_comp comp_def
    by (simp only:)
qed

lemma approaches_uminus:
  "approaches_monotonically (map uminus ss) (- t) = approaches_monotonically ss t"
proof -
  have "\<bar>- s' - - t\<bar> \<le> \<bar>- s - - t\<bar> \<longleftrightarrow> \<bar>s' - t\<bar> \<le> \<bar>s - t\<bar>" for s s' :: real
    by (simp add: abs_minus_commute)
  then show ?thesis
    by (simp add: approaches_monotonically_def sorted_wrt_map)
qed

lemma square_convex: "convex_on_unit (\<lambda>x. x\<^sup>2) a"
  unfolding convex_on_unit_def
proof (intro allI impI)
  fix x y t :: real
  assume "a \<le> x \<and> x \<le> a + 1 \<and> a \<le> y \<and> y \<le> a + 1 \<and> 0 \<le> t \<and> t \<le> 1"
  then have t: "0 \<le> t * (1 - t)" by simp
  have "(1 - t) * x\<^sup>2 + t * y\<^sup>2 - ((1 - t) * x + t * y)\<^sup>2 = t * (1 - t) * (x - y)\<^sup>2"
    by (simp add: power2_eq_square algebra_simps)
  moreover have "0 \<le> t * (1 - t) * (x - y)\<^sup>2"
    using t by (rule mult_nonneg_nonneg) simp
  ultimately show "((1 - t) * x + t * y)\<^sup>2 \<le> (1 - t) * x\<^sup>2 + t * y\<^sup>2"
    by linarith
qed

lemma nth_exact_slopes:
  "i < 20 \<Longrightarrow> exact_slopes g a ! i = (g (a + h_vals ! i) - g a) / h_vals ! i"
  by (simp add: exact_slopes_def length_h_vals secant_slope_eq)

text \<open>
  In exact arithmetic: when \<open>g\<close> has the derivative \<open>D\<close> at \<open>a\<close> and is convex, or concave,
  between \<open>a\<close> and \<open>a + 1\<close>, no quotient is farther from \<open>D\<close> than an earlier one.
\<close>

lemma exact_slopes_approach:
  assumes "DERIV g a :> D"
    and "convex_on_unit g a \<or> convex_on_unit (\<lambda>x. - g x) a"
  shows "approaches_monotonically (exact_slopes g a) D"
  using assms(2)
proof
  assume "convex_on_unit g a"
  with assms(1) show ?thesis by (rule convex_slopes_approach)
next
  assume cv: "convex_on_unit (\<lambda>x. - g x) a"
  have "DERIV (\<lambda>x. - g x) a :> - D"
    using assms(1) by (rule DERIV_minus)
  from convex_slopes_approach [OF this cv] show ?thesis
    by (simp add: exact_slopes_uminus approaches_uminus)
qed

lemma exact_slopes_square:
  "approaches_monotonically (exact_slopes (\<lambda>x. x\<^sup>2) 1) 2"
proof -
  have "DERIV (\<lambda>x. x\<^sup>2) 1 :> (2 :: real)"
    by (auto intro!: derivative_eq_intros)
  moreover have "convex_on_unit (\<lambda>x. x\<^sup>2) 1 \<or> convex_on_unit (\<lambda>x. - x\<^sup>2) 1"
    by (simp add: square_convex)
  ultimately show ?thesis
    by (rule exact_slopes_approach)
qed

text \<open>
  Without convexity this fails in exact arithmetic too: for \<open>x\<^sup>3 - x\<^sup>2\<close> at \<open>a = 0\<close>, whose
  derivative there is 0, the first quotient (at \<open>h = 1\<close>) is 0 and the second is not, and
  the quotients first fall and then rise.
\<close>

lemma exact_slopes_not_monotone:
  "DERIV (\<lambda>x. x ^ 3 - x\<^sup>2) 0 :> (0 :: real)
   \<and> \<not> approaches_monotonically (exact_slopes (\<lambda>x. x ^ 3 - x\<^sup>2) 0) 0
   \<and> \<not> sorted_wrt (\<le>) (exact_slopes (\<lambda>x. x ^ 3 - x\<^sup>2) 0)
   \<and> \<not> sorted_wrt (\<ge>) (exact_slopes (\<lambda>x. x ^ 3 - x\<^sup>2) 0)"
proof -
  let ?ss = "exact_slopes (\<lambda>x. x ^ 3 - x\<^sup>2) 0"
  have len: "length ?ss = 20"
    by (simp add: exact_slopes_def length_h_vals)
  have s0: "?ss ! 0 = 0"
    by (simp add: nth_exact_slopes nth_h_vals)
  have s1: "?ss ! 1 < 0"
    by (simp add: nth_exact_slopes nth_h_vals power2_eq_square power3_eq_cube)
  have s18: "?ss ! 18 < ?ss ! 19"
    by (simp add: nth_exact_slopes nth_h_vals power2_eq_square power3_eq_cube)
  have d: "DERIV (\<lambda>x. x ^ 3 - x\<^sup>2) 0 :> (0 :: real)"
    by (auto intro!: derivative_eq_intros)
  have "\<not> approaches_monotonically ?ss 0"
  proof
    assume "approaches_monotonically ?ss 0"
    then have "\<bar>?ss ! 1 - 0\<bar> \<le> \<bar>?ss ! 0 - 0\<bar>"
      unfolding approaches_monotonically_def
      by (rule sorted_wrt_nth_less) (simp_all add: len)
    with s0 s1 show False by simp
  qed
  moreover have "\<not> sorted_wrt (\<le>) ?ss"
  proof
    assume "sorted_wrt (\<le>) ?ss"
    then have "?ss ! 0 \<le> ?ss ! 1"
      by (rule sorted_wrt_nth_less) (simp_all add: len)
    with s0 s1 show False by simp
  qed
  moreover have "\<not> sorted_wrt (\<ge>) ?ss"
  proof
    assume "sorted_wrt (\<ge>) ?ss"
    then have "?ss ! 18 \<ge> ?ss ! 19"
      by (rule sorted_wrt_nth_less) (simp_all add: len)
    with s18 show False by simp
  qed
  ultimately show ?thesis using d by simp
qed

subsection \<open>What no handler catches\<close>

lemma evaluation_failure_uncaught:
  assumes "parse_stage S (func_input w) = ([], Inr (expr, f, f_prime_expr, f_prime))"
    and "array_call f x_vals = Inl e"
  shows "run S w = (page_top, Inl (Crashed e))"
  using assms by (simp add: run_def)

subsection \<open>Rounding to the nearest integer\<close>

lemma rne_of_int [simp]: "rne (of_int n) = n"
  by (simp add: rne_def)

lemma rne_ge_floor: "\<lfloor>t\<rfloor> \<le> rne t"
  by (simp add: rne_def Let_def)

lemma rne_le_floor: "rne t \<le> \<lfloor>t\<rfloor> + 1"
  by (simp add: rne_def Let_def)

lemma rne_ge_int:
  assumes "of_int m \<le> t"
  shows "m \<le> rne t"
proof -
  from assms have "m \<le> \<lfloor>t\<rfloor>" by (simp add: le_floor_iff)
  with rne_ge_floor [of t] show ?thesis by linarith
qed

lemma rne_le_int:
  assumes "t \<le> of_int m"
  shows "rne t \<le> m"
proof (cases "t = of_int m")
  case True
  then show ?thesis by simp
next
  case False
  with assms have "t < of_int m" by simp
  then have "\<lfloor>t\<rfloor> < m" by (simp add: floor_less_iff)
  with rne_le_floor [of t] show ?thesis by linarith
qed

lemma rne_error: "\<bar>of_int (rne t) - t\<bar> \<le> 1 / 2"
proof -
  have "of_int \<lfloor>t\<rfloor> \<le> t" "t < of_int \<lfloor>t\<rfloor> + 1" by linarith+
  then show ?thesis
    by (auto simp: rne_def Let_def)
qed

lemma rne_minus: "rne (- t) = - rne t"
proof (cases "t = of_int \<lfloor>t\<rfloor>")
  case True
  then have "rne (- of_int \<lfloor>t\<rfloor>) = - rne (of_int \<lfloor>t\<rfloor>)"
    by (metis of_int_minus rne_of_int)
  with True show ?thesis by simp
next
  case False
  define n where "n = \<lfloor>t\<rfloor>"
  have lt: "of_int n < t" "t < of_int n + 1"
    using False unfolding n_def by linarith+
  have fl: "\<lfloor>- t\<rfloor> = - n - 1"
    by (rule floor_unique) (use lt in simp_all)
  have ft: "\<lfloor>t\<rfloor> = n"
    by (simp add: n_def)
  show ?thesis
    unfolding rne_def Let_def fl ft using lt
    by auto
qed

subsection \<open>Rounding to the nearest double\<close>

lemma floor_log2_bounds:
  assumes "r \<noteq> 0"
  shows "2 powi \<lfloor>log 2 \<bar>r\<bar>\<rfloor> \<le> \<bar>r\<bar>" and "\<bar>r\<bar> < 2 powi (\<lfloor>log 2 \<bar>r\<bar>\<rfloor> + 1)"
proof -
  have pw: "2 powr real_of_int n = (2 :: real) powi n" for n
    by (rule powr_real_of_int') simp_all
  have "0 < \<bar>r\<bar>" using assms by simp
  then have "2 powr real_of_int \<lfloor>log 2 \<bar>r\<bar>\<rfloor> \<le> \<bar>r\<bar>
      \<and> \<bar>r\<bar> < 2 powr real_of_int (\<lfloor>log 2 \<bar>r\<bar>\<rfloor> + 1)"
    using floor_log_eq_powr_iff [of "\<bar>r\<bar>" 2 "\<lfloor>log 2 \<bar>r\<bar>\<rfloor>"] by simp
  then show "2 powi \<lfloor>log 2 \<bar>r\<bar>\<rfloor> \<le> \<bar>r\<bar>" and "\<bar>r\<bar> < 2 powi (\<lfloor>log 2 \<bar>r\<bar>\<rfloor> + 1)"
    by (simp_all only: pw)
qed

lemma pow2_less_imp: "(2 :: real) powi m < 2 powi n \<Longrightarrow> m < n"
  by (rule ccontr) (use power_int_increasing [of n m "2 :: real"] in simp)

lemma expo_le:
  assumes "r \<noteq> 0" "\<bar>r\<bar> < 2 powi (k + 1)" "- 1022 \<le> k"
  shows "expo r \<le> k"
proof -
  have "2 powi \<lfloor>log 2 \<bar>r\<bar>\<rfloor> < (2 :: real) powi (k + 1)"
    using floor_log2_bounds(1) [OF assms(1)] assms(2) by linarith
  then have "\<lfloor>log 2 \<bar>r\<bar>\<rfloor> < k + 1" by (rule pow2_less_imp)
  with assms(3) show ?thesis by (simp add: expo_def)
qed

lemma expo_ge:
  assumes "2 powi k \<le> \<bar>r\<bar>"
  shows "k \<le> expo r"
proof -
  have r: "r \<noteq> 0" using assms by (smt (verit) zero_less_power_int)
  have "(2 :: real) powi k < 2 powi (\<lfloor>log 2 \<bar>r\<bar>\<rfloor> + 1)"
    using floor_log2_bounds(2) [OF r] assms by linarith
  then have "k < \<lfloor>log 2 \<bar>r\<bar>\<rfloor> + 1" by (rule pow2_less_imp)
  then show ?thesis by (simp add: expo_def)
qed

lemma expo_eq_bounds:
  assumes "2 powi k \<le> \<bar>r\<bar>" "\<bar>r\<bar> < 2 powi (k + 1)" "- 1022 \<le> k"
  shows "expo r = k"
proof -
  have r: "r \<noteq> 0" using assms(1) by (smt (verit) zero_less_power_int)
  from expo_le [OF r assms(2,3)] expo_ge [OF assms(1)] show ?thesis by simp
qed

lemma pow_expo_le:
  assumes "2 powi k \<le> \<bar>r\<bar>" "- 1022 \<le> k"
  shows "2 powi expo r \<le> \<bar>r\<bar>"
proof -
  have r: "r \<noteq> 0" using assms by (smt (verit) zero_less_power_int)
  have "(2 :: real) powi k < 2 powi (\<lfloor>log 2 \<bar>r\<bar>\<rfloor> + 1)"
    using floor_log2_bounds(2) [OF r] assms by linarith
  then have "k < \<lfloor>log 2 \<bar>r\<bar>\<rfloor> + 1" by (rule pow2_less_imp)
  with assms(2) have "expo r = \<lfloor>log 2 \<bar>r\<bar>\<rfloor>" by (simp add: expo_def)
  with floor_log2_bounds(1) [OF r] show ?thesis by simp
qed

lemma quantum_pos [simp]: "0 < quantum r"
  by (simp add: quantum_def)

lemma quantum_nonzero [simp]: "quantum r \<noteq> 0"
  by (simp add: quantum_def)

lemma abs_quantum [simp]: "\<bar>quantum r\<bar> = quantum r"
  by (simp add: quantum_def)

lemma expo_minus [simp]: "expo (- r) = expo r"
  by (simp add: expo_def)

lemma quantum_minus [simp]: "quantum (- r) = quantum r"
  by (simp add: quantum_def)

lemma round_f64_0 [simp]: "round_f64 0 = 0"
  by (simp add: round_f64_def)

lemma round_f64_minus: "round_f64 (- r) = - round_f64 r"
  by (simp add: round_f64_def rne_minus)

lemma round_f64_error: "\<bar>round_f64 r - r\<bar> \<le> quantum r / 2"
proof (cases "r = 0")
  case True
  then show ?thesis by (simp add: less_imp_le)
next
  case False
  have "round_f64 r - r = quantum r * (of_int (rne (r / quantum r)) - r / quantum r)"
    using False by (simp add: round_f64_def algebra_simps)
  then have "\<bar>round_f64 r - r\<bar> = quantum r * \<bar>of_int (rne (r / quantum r)) - r / quantum r\<bar>"
    by (simp add: abs_mult)
  also have "\<dots> \<le> quantum r * (1 / 2)"
    by (intro mult_left_mono rne_error) (simp add: less_imp_le)
  finally show ?thesis by simp
qed

lemma round_error_bound:
  assumes "\<bar>r\<bar> < 2 powi (k + 1)" "- 1022 \<le> k"
  shows "\<bar>round_f64 r - r\<bar> \<le> 2 powi (k - 53)"
proof (cases "r = 0")
  case True
  then show ?thesis by simp
next
  case False
  have "expo r - 52 \<le> k - 52"
    using expo_le [OF False assms] by simp
  then have "quantum r \<le> 2 powi (k - 52)"
    unfolding quantum_def by (intro power_int_increasing) simp_all
  moreover have "(2 :: real) powi (k - 52) = 2 * 2 powi (k - 53)"
    using power_int_add [of "2 :: real" 1 "k - 53"] by simp
  ultimately show ?thesis
    using round_f64_error [of r] by linarith
qed

lemma round_f64_nonneg: "0 \<le> r \<Longrightarrow> 0 \<le> round_f64 r"
  using rne_ge_int [of 0 "r / quantum r"]
  by (simp add: round_f64_def less_imp_le)

lemma round_ge_pow:
  assumes "2 powi k \<le> r" "- 1022 \<le> k"
  shows "2 powi k \<le> round_f64 r"
proof -
  have pos: "0 < r" using assms(1) by (smt (verit) zero_less_power_int)
  then have abs: "\<bar>r\<bar> = r" by simp
  have e: "2 powi expo r \<le> r" using pow_expo_le [of k r] assms abs by simp
  have ke: "k \<le> expo r" using expo_ge [of k r] assms(1) abs by simp
  have "(2 :: real) powi expo r = quantum r * 2 powi 52"
    unfolding quantum_def using power_int_add [of "2 :: real" "expo r - 52" 52] by simp
  then have q: "(2 :: real) powi expo r = quantum r * of_int (2 ^ 52)"
    by simp
  have "of_int (2 ^ 52) \<le> r / quantum r"
    using e q by (simp add: pos_le_divide_eq mult.commute)
  then have "2 ^ 52 \<le> rne (r / quantum r)" by (rule rne_ge_int)
  then have "of_int (2 ^ 52) \<le> (of_int (rne (r / quantum r)) :: real)"
    by (simp only: of_int_le_iff)
  then have "quantum r * of_int (2 ^ 52) \<le> quantum r * of_int (rne (r / quantum r))"
    by (intro mult_left_mono) (simp_all add: less_imp_le)
  then have "2 powi expo r \<le> round_f64 r"
    using pos q by (simp add: round_f64_def)
  moreover have "(2 :: real) powi k \<le> 2 powi expo r"
    using ke by (intro power_int_increasing) simp_all
  ultimately show ?thesis by linarith
qed

lemma round_le_pow_pos:
  assumes "0 < r" "r \<le> 2 powi k" "- 1022 \<le> k"
  shows "round_f64 r \<le> 2 powi k"
proof -
  have ek: "expo r \<le> k"
  proof (cases "r = 2 powi k")
    case True
    then have "expo r = k"
      using assms(3) power_int_strict_increasing [of k "k + 1" "2 :: real"]
      by (intro expo_eq_bounds) simp_all
    then show ?thesis by simp
  next
    case False
    with assms(2) have "r < 2 powi k" by simp
    then have "\<bar>r\<bar> < 2 powi ((k - 1) + 1)" using assms(1) by simp
    then have "expo r \<le> k" if "- 1022 \<le> k - 1"
      using expo_le [of r "k - 1"] assms(1) that by simp
    moreover have "expo r \<le> k" if "\<not> - 1022 \<le> k - 1"
    proof -
      from that assms(3) have k: "k = - 1022" by simp
      have "\<bar>r\<bar> < 2 powi (k + 1)"
        using \<open>r < 2 powi k\<close> assms(1) power_int_increasing [of k "k + 1" "2 :: real"] by simp
      then show ?thesis using expo_le [of r k] assms(1,3) by simp
    qed
    ultimately show ?thesis by blast
  qed
  define n where "n = nat (k - expo r + 52)"
  have "(2 :: real) powi k = quantum r * 2 powi (k - expo r + 52)"
    unfolding quantum_def using power_int_add [of "2 :: real" "expo r - 52" "k - expo r + 52"] by simp
  also have "(2 :: real) powi (k - expo r + 52) = 2 ^ n"
    using ek by (simp add: n_def power_int_nonneg_exp)
  finally have q: "(2 :: real) powi k = quantum r * of_int (2 ^ n)" by simp
  have "r / quantum r \<le> of_int (2 ^ n)"
    using assms(2) q by (simp add: pos_divide_le_eq mult.commute)
  then have "rne (r / quantum r) \<le> 2 ^ n" by (rule rne_le_int)
  then have "(of_int (rne (r / quantum r)) :: real) \<le> of_int (2 ^ n)"
    by (simp only: of_int_le_iff)
  then have "quantum r * of_int (rne (r / quantum r)) \<le> quantum r * of_int (2 ^ n)"
    by (intro mult_left_mono) (simp_all add: less_imp_le)
  then show ?thesis
    using assms(1) q by (simp add: round_f64_def)
qed

lemma round_le_pow:
  assumes "\<bar>r\<bar> \<le> 2 powi k" "- 1022 \<le> k"
  shows "\<bar>round_f64 r\<bar> \<le> 2 powi k"
proof -
  consider "r = 0" | "0 < r" | "r < 0" by linarith
  then show ?thesis
  proof cases
    case 1
    then show ?thesis by simp
  next
    case 2
    then have "round_f64 r \<le> 2 powi k"
      using round_le_pow_pos [of r k] assms by simp
    with round_f64_nonneg [of r] 2 show ?thesis by simp
  next
    case 3
    then have "round_f64 (- r) \<le> 2 powi k"
      using round_le_pow_pos [of "- r" k] assms by simp
    with round_f64_nonneg [of "- r"] 3 show ?thesis
      by (simp add: round_f64_minus)
  qed
qed

lemma fl_round_finite:
  assumes "\<bar>r\<bar> \<le> 2 powi k" "- 1022 \<le> k" "k < 1024"
  shows "fl_round r = Finite (round_f64 r)"
proof -
  have "\<bar>round_f64 r\<bar> \<le> 2 powi k" by (rule round_le_pow [OF assms(1,2)])
  also have "(2 :: real) powi k < 2 powi 1024"
    using assms(3) by (intro power_int_strict_increasing) simp_all
  finally show ?thesis by (simp add: fl_round_def Let_def)
qed

lemma round_representable:
  assumes "\<bar>m\<bar> < 2 ^ 53" "- 1074 \<le> j"
  shows "round_f64 (of_int m * 2 powi j) = of_int m * 2 powi j"
proof (cases "m = 0")
  case True
  then show ?thesis by simp
next
  case False
  define r :: real where "r = of_int m * 2 powi j"
  have r: "r \<noteq> 0" using False by (simp add: r_def)
  have "\<bar>r\<bar> = of_int \<bar>m\<bar> * 2 powi j" by (simp add: r_def abs_mult)
  also have "\<dots> < of_int (2 ^ 53) * 2 powi j"
    using assms(1) by (intro mult_strict_right_mono) simp_all
  also have "\<dots> = 2 powi ((j + 52) + 1)"
    using power_int_add [of "2 :: real" 53 j] by (simp add: add.commute)
  finally have "expo r \<le> j + 52"
    using expo_le [OF r, of "j + 52"] assms(2) by simp
  define n where "n = nat (j + 52 - expo r)"
  define q where "q = quantum r"
  have q: "0 < q" by (simp add: q_def)
  have "(2 :: real) powi j = 2 powi (expo r - 52) * 2 powi (j + 52 - expo r)"
    using power_int_add [of "2 :: real" "expo r - 52" "j + 52 - expo r"] by simp
  also have "(2 :: real) powi (j + 52 - expo r) = 2 ^ n"
    using \<open>expo r \<le> j + 52\<close> by (simp add: n_def power_int_nonneg_exp)
  finally have "(2 :: real) powi j = q * 2 ^ n"
    by (simp add: q_def quantum_def)
  then have "r = of_int m * (q * 2 ^ n)"
    by (simp add: r_def)
  then have "r / q = of_int (m * 2 ^ n)"
    using q by simp
  then have "rne (r / q) = m * 2 ^ n"
    by (simp only: rne_of_int)
  then have "round_f64 r = q * of_int (m * 2 ^ n)"
    using r by (simp add: round_f64_def q_def)
  also have "\<dots> = r"
    using \<open>r = of_int m * (q * 2 ^ n)\<close> by simp
  finally show ?thesis by (simp add: r_def)
qed

lemma round_f64_eval:
  assumes "2 powi k \<le> \<bar>r\<bar>" "\<bar>r\<bar> < 2 powi (k + 1)" "- 1022 \<le> k"
  shows "round_f64 r = 2 powi (k - 52) * of_int (rne (r / 2 powi (k - 52)))"
proof -
  have "r \<noteq> 0" using assms(1) by (smt (verit) zero_less_power_int)
  then show ?thesis by (simp add: round_f64_def quantum_def expo_eq_bounds [OF assms])
qed

lemma fl_round_eval:
  assumes "2 powi k \<le> \<bar>r\<bar>" "\<bar>r\<bar> < 2 powi (k + 1)" "- 1022 \<le> k" "k < 1023"
  shows "fl_round r = Finite (2 powi (k - 52) * of_int (rne (r / 2 powi (k - 52))))"
proof -
  have "\<bar>r\<bar> \<le> 2 powi (k + 1)" using assms(2) by simp
  then have "fl_round r = Finite (round_f64 r)"
    using assms(3,4) by (intro fl_round_finite [of r "k + 1"]) simp_all
  then show ?thesis by (simp add: round_f64_eval [OF assms(1,2,3)])
qed

lemma fl_round_0 [simp]: "fl_round 0 = Finite 0"
  by (simp add: fl_round_def)

lemma fl_round_disj:
  "fl_round r = Finite (round_f64 r) \<or> fl_round r = PInf \<or> fl_round r = NInf"
  unfolding fl_round_def Let_def
  by (cases "(2 :: real) powi 1024 \<le> \<bar>round_f64 r\<bar>"; cases "0 < round_f64 r")
     (simp_all only: if_True if_False simp_thms)

lemma fl_round_cases:
  obtains "fl_round r = Finite (round_f64 r)" | "fl_round r = PInf" | "fl_round r = NInf"
  using fl_round_disj [of r] by blast

lemma fl_round_is_f64: "is_f64 x \<Longrightarrow> fl_round x = Finite x"
  by (simp add: is_f64_def fl_round_def)

lemma is_f64_int:
  assumes "\<bar>m\<bar> < 2 ^ 53"
  shows "is_f64 (of_int m)"
proof -
  have "round_f64 (of_int m * 2 powi 0) = of_int m * 2 powi 0"
    by (rule round_representable [OF assms]) simp
  moreover have "\<bar>real_of_int m\<bar> < 2 ^ 53"
    using assms by (metis of_int_abs of_int_less_iff of_int_numeral of_int_power)
  then have "\<bar>real_of_int m\<bar> < 2 powi 1024"
    by (rule less_trans) simp
  ultimately show ?thesis by (simp add: is_f64_def)
qed

lemma fl_round_int: "\<bar>m\<bar> < 2 ^ 53 \<Longrightarrow> fl_round (of_int m) = Finite (of_int m)"
  by (rule fl_round_is_f64 [OF is_f64_int])

lemma fl_round_small [simp]:
  "fl_round 1 = Finite 1" "fl_round 10 = Finite 10" "fl_round (- 10) = Finite (- 10)"
  "fl_round 20 = Finite 20" "fl_round (- 1) = Finite (- 1)" "fl_round 3 = Finite 3"
  using fl_round_int [of 1] fl_round_int [of 10] fl_round_int [of "- 10"]
    fl_round_int [of 20] fl_round_int [of "- 1"] fl_round_int [of 3]
  by simp_all

subsection \<open>The two grids in doubles\<close>

lemma hundredth: "fl_round (1 / 100) = Finite (5764607523034235 / 2 ^ 59)"
  by (subst fl_round_eval [of "- 7"]) (simp_all add: rne_def)

lemma h_delta: "fl_sub (fl_round (1 / 100)) (Finite 1) = Finite (- (8917127262193582 / 2 ^ 53))"
  unfolding hundredth fl_sub_def
  by (simp, subst fl_round_eval [of "- 1"]) (simp_all add: rne_def)

lemma h_step: "fl_div (Finite (- (8917127262193582 / 2 ^ 53))) (Finite 19)
    = Finite (- (7509159799741964 / 2 ^ 57))"
  by (simp, subst fl_round_eval [of "- 5"]) (simp_all add: rne_def)

lemma h_vals_f64_eq:
  "h_vals_f64 =
     map (\<lambda>i. fl_add (fl_mul (Finite (real i)) (Finite (- (7509159799741964 / 2 ^ 57)))) (Finite 1))
       [0..<19] @ [fl_round (1 / 100)]"
proof -
  define dv :: real where "dv = - (8917127262193582 / 2 ^ 53)"
  define sv :: real where "sv = - (7509159799741964 / 2 ^ 57)"
  have d: "fl_sub (fl_round (1 / 100)) (Finite 1) = Finite dv"
    unfolding dv_def by (rule h_delta)
  have s: "fl_div (Finite dv) (Finite 19) = Finite sv"
    unfolding dv_def sv_def by (rule h_step)
  have nz: "sv \<noteq> 0" by (simp add: sv_def)
  have "[0..<20] = [0..<19] @ [19 :: nat]"
    using upt_Suc [of 0 19] by simp
  then have b: "butlast (map f [0..<20]) = map f [0..<19]" for f :: "nat \<Rightarrow> double"
    by (simp only: map_append list.map butlast_snoc)
  have "h_vals_f64 =
     map (\<lambda>i. fl_add (fl_mul (Finite (real i)) (Finite sv)) (Finite 1)) [0..<19]
       @ [fl_round (1 / 100)]"
    unfolding h_vals_f64_def linspace_f64_def Let_def
    by (simp add: d s nz b del: fl_div.simps fl_add.simps fl_mul.simps upt_Suc)
  then show ?thesis unfolding sv_def .
qed

lemma length_h_vals_f64: "length h_vals_f64 = 20"
  by (simp add: h_vals_f64_eq)

lemma h_vals_f64_nth:
  "i < 19 \<Longrightarrow> h_vals_f64 ! i =
     fl_add (fl_mul (Finite (real i)) (Finite (- (7509159799741964 / 2 ^ 57)))) (Finite 1)"
  by (simp add: h_vals_f64_eq nth_append del: upt_Suc)

lemma last_h_vals_f64: "last h_vals_f64 = Finite (5764607523034235 / 2 ^ 59)"
  by (simp add: h_vals_f64_eq hundredth)

lemma h_elem_bounds:
  assumes "i < 19"
  shows "\<exists>v. fl_add (fl_mul (Finite (real i)) (Finite (- (7509159799741964 / 2 ^ 57)))) (Finite 1)
            = Finite v \<and> 1 / 32 \<le> v \<and> v \<le> 2"
proof -
  define sv :: real where "sv = - (7509159799741964 / 2 ^ 57)"
  define r where "r = real i * sv"
  have i: "real i \<le> 18" using assms by simp
  have sv: "- (61 / 1152) \<le> sv" "sv \<le> 0"
    by (simp_all add: sv_def)
  have "18 * sv \<le> real i * sv"
    using i sv(2) by (intro mult_right_mono_neg) simp_all
  moreover have "real i * sv \<le> 0"
    using sv(2) by (simp add: mult_nonneg_nonpos)
  ultimately have r: "- (61 / 64) \<le> r" "r \<le> 0"
    using sv(1) unfolding r_def by linarith+
  then have abs: "\<bar>r\<bar> < 2 powi (- 1 + 1)" "\<bar>r\<bar> \<le> 2 powi 0" by simp_all
  have p: "fl_round r = Finite (round_f64 r)"
    by (rule fl_round_finite [OF abs(2)]) simp_all
  have "\<bar>round_f64 r - r\<bar> \<le> 2 powi (- 1 - 53)"
    by (rule round_error_bound [OF abs(1)]) simp
  then have "\<bar>round_f64 r - r\<bar> \<le> 1 / 18014398509481984"
    by (simp add: power_int_minus_divide)
  then have e: "round_f64 r - r \<le> 1 / 18014398509481984" "r - round_f64 r \<le> 1 / 18014398509481984"
    by linarith+
  define s where "s = round_f64 r + 1"
  have "1 / 32 \<le> s" "s \<le> 2" "- 2 \<le> s"
    using r e unfolding s_def by linarith+
  then have s: "2 powi (- 5) \<le> s" "\<bar>s\<bar> \<le> 2 powi 1"
    by (simp_all add: power_int_minus_divide abs_le_iff)
  have q: "fl_round s = Finite (round_f64 s)"
    by (rule fl_round_finite [OF s(2)]) simp_all
  have "2 powi (- 5) \<le> round_f64 s"
    by (rule round_ge_pow [OF s(1)]) simp
  moreover have "\<bar>round_f64 s\<bar> \<le> 2 powi 1"
    by (rule round_le_pow [OF s(2)]) simp
  ultimately have "1 / 32 \<le> round_f64 s \<and> round_f64 s \<le> 2"
    by (simp add: power_int_minus_divide abs_le_iff)
  moreover have "fl_add (fl_mul (Finite (real i)) (Finite sv)) (Finite 1) = Finite (round_f64 s)"
    by (simp add: p q r_def [symmetric] s_def [symmetric])
  ultimately show ?thesis unfolding sv_def by blast
qed

lemma h_vals_f64_bounds:
  assumes "h \<in> set h_vals_f64"
  shows "\<exists>v. h = Finite v \<and> 1 / 128 \<le> v \<and> v \<le> 2"
proof -
  from assms consider i where "i < 19"
      "h = fl_add (fl_mul (Finite (real i)) (Finite (- (7509159799741964 / 2 ^ 57)))) (Finite 1)"
    | "h = fl_round (1 / 100)"
    unfolding h_vals_f64_eq by auto
  then show ?thesis
  proof cases
    case 1
    from h_elem_bounds [OF 1(1)] 1(2) show ?thesis by force
  next
    case 2
    then show ?thesis
      unfolding hundredth by (intro exI [of _ "5764607523034235 / 2 ^ 59"]) simp
  qed
qed

lemma h_vals_f64_nth_bounds:
  assumes "i < 20"
  shows "\<exists>v. h_vals_f64 ! i = Finite v \<and> 1 / 128 \<le> v \<and> v \<le> 2"
  by (rule h_vals_f64_bounds) (simp add: assms length_h_vals_f64)

lemma x_step: "fl_div (fl_sub (Finite 10) (Finite (- 10))) (Finite 399) = Finite (225744342224085 / 2 ^ 52)"
  unfolding fl_sub_def
  by (simp, subst fl_round_eval [of "- 5"]) (simp_all add: rne_def)

lemma x_vals_f64_eq:
  "x_vals_f64 =
     map (\<lambda>i. fl_add (fl_mul (Finite (real i)) (Finite (225744342224085 / 2 ^ 52))) (Finite (- 10)))
       [0..<399] @ [Finite 10]"
proof -
  define sv :: real where "sv = 225744342224085 / 2 ^ 52"
  have s: "fl_div (fl_sub (Finite 10) (Finite (- 10))) (Finite 399) = Finite sv"
    unfolding sv_def by (rule x_step)
  have nz: "sv \<noteq> 0" by (simp add: sv_def)
  have "[0..<400] = [0..<399] @ [399 :: nat]"
    using upt_Suc [of 0 399] by simp
  then have b: "butlast (map f [0..<400]) = map f [0..<399]" for f :: "nat \<Rightarrow> double"
    by (simp only: map_append list.map butlast_snoc)
  have "x_vals_f64 =
     map (\<lambda>i. fl_add (fl_mul (Finite (real i)) (Finite sv)) (Finite (- 10))) [0..<399]
       @ [Finite 10]"
    unfolding x_vals_f64_def linspace_f64_def Let_def
    by (simp add: s nz b del: fl_div.simps fl_add.simps fl_mul.simps upt_Suc)
  then show ?thesis unfolding sv_def .
qed

lemma length_x_vals_f64: "length x_vals_f64 = 400"
  by (simp add: x_vals_f64_eq)

lemma last_x_vals_f64: "last x_vals_f64 = Finite 10"
  by (simp add: x_vals_f64_eq)

lemma hd_x_vals_f64: "hd x_vals_f64 = Finite (- 10)"
proof -
  have "[0..<399] = 0 # [1..<399]"
    by (simp add: upt_conv_Cons)
  then show ?thesis
    by (simp add: x_vals_f64_eq del: upt_Suc)
qed

lemma x_vals_f64_last_nth: "x_vals_f64 ! 399 = Finite 10"
  by (simp add: x_vals_f64_eq nth_append del: upt_Suc)

lemma x_vals_f64_first_nth: "x_vals_f64 ! 0 = Finite (- 10)"
  using hd_x_vals_f64 by (simp add: hd_conv_nth x_vals_f64_eq del: upt_Suc)

subsection \<open>The tangent in doubles\<close>

lemma tangent_line_f64_nth:
  "i < 400 \<Longrightarrow> tangent_line_f64 fa fpa a ! i = tangent_at_f64 fa fpa a (x_vals_f64 ! i)"
  by (simp add: tangent_line_f64_def length_x_vals_f64)

lemma tangent_f64_finite:
  assumes "tangent_at_f64 (Finite fa) (Finite fpa) (Finite a) (Finite x) = Finite t"
  shows "t = round_f64 (fa + round_f64 (fpa * round_f64 (x - a)))"
proof -
  have d: "fl_round (x - a) = Finite (round_f64 (x - a))"
    using assms by (cases "x - a" rule: fl_round_cases)
      (auto simp: tangent_at_f64_def fl_sub_def split: if_splits)
  have m: "fl_round (fpa * round_f64 (x - a)) = Finite (round_f64 (fpa * round_f64 (x - a)))"
    using assms d by (cases "fpa * round_f64 (x - a)" rule: fl_round_cases)
      (auto simp: tangent_at_f64_def fl_sub_def)
  show ?thesis
    using assms d m
    by (cases "fa + round_f64 (fpa * round_f64 (x - a))" rule: fl_round_cases)
      (auto simp: tangent_at_f64_def fl_sub_def)
qed

lemma tenth: "fl_round (1 / 10) = Finite (3602879701896397 / 2 ^ 55)"
  by (subst fl_round_eval [of "- 4"]) (simp_all add: rne_def)

lemma tenth_times_ten: "fl_round (3602879701896397 / 2 ^ 55 * 10) = Finite 1"
  by (subst fl_round_eval [of 0]) (simp_all add: rne_def)

lemma tenth_times_minus_ten: "fl_round (3602879701896397 / 2 ^ 55 * (- 10)) = Finite (- 1)"
  by (subst fl_round_eval [of 0]) (simp_all add: rne_def)

lemma tangent_sample: "tangent_at_f64 (Finite 3) (Finite 3) (Finite 10) (Finite (- 10)) = Finite (- 57)"
  using fl_round_int [of "- 20"] fl_round_int [of "- 60"] fl_round_int [of "- 57"]
  by (simp add: tangent_at_f64_def fl_sub_def)

lemma tangent_line_sample: "tangent_line_f64 (Finite 3) (Finite 3) (Finite 10) ! 0 = Finite (- 57)"
proof -
  have i: "(0 :: nat) < 400" by simp
  show ?thesis
    by (simp only: tangent_line_f64_nth [OF i] x_vals_f64_first_nth tangent_sample)
qed

subsection \<open>The slopes in doubles\<close>

lemma divisor_near:
  assumes "\<bar>a\<bar> \<le> 10" "1 / 128 \<le> v" "v \<le> 2"
  shows "\<exists>d. slope_divisor_f64 (Finite a) (Finite v) = Finite d \<and> 0 < d \<and> \<bar>d - v\<bar> \<le> 1 / 2 ^ 49"
proof -
  define r where "r = a + v"
  have r: "\<bar>r\<bar> < 2 powi (3 + 1)" "\<bar>r\<bar> \<le> 2 powi 4"
    using assms by (simp_all add: r_def)
  have x1: "fl_round r = Finite (round_f64 r)"
    by (rule fl_round_finite [OF r(2)]) simp_all
  have "\<bar>round_f64 r - r\<bar> \<le> 2 powi (3 - 53)"
    by (rule round_error_bound [OF r(1)]) simp
  then have "\<bar>round_f64 r - r\<bar> \<le> 1 / 1125899906842624"
    by (simp add: power_int_minus_divide)
  then have e: "round_f64 r - r \<le> 1 / 1125899906842624" "r - round_f64 r \<le> 1 / 1125899906842624"
    by linarith+
  define s where "s = round_f64 r - a"
  have b: "1 / 256 \<le> s" "s \<le> 3" "- 3 \<le> s"
    using assms(2,3) e unfolding s_def r_def by linarith+
  then have s: "2 powi (- 8) \<le> s" "\<bar>s\<bar> \<le> 2 powi 2" "\<bar>s\<bar> < 2 powi (1 + 1)"
    by (simp_all add: power_int_minus_divide abs_le_iff abs_less_iff)
  have d: "fl_round s = Finite (round_f64 s)"
    by (rule fl_round_finite [OF s(2)]) simp_all
  have "2 powi (- 8) \<le> round_f64 s"
    by (rule round_ge_pow [OF s(1)]) simp
  then have pos: "0 < round_f64 s"
    by (simp add: power_int_minus_divide)
  have "\<bar>round_f64 s - s\<bar> \<le> 2 powi (1 - 53)"
    by (rule round_error_bound [OF s(3)]) simp
  then have "\<bar>round_f64 s - s\<bar> \<le> 1 / 4503599627370496"
    by (simp add: power_int_minus_divide)
  then have e': "round_f64 s - s \<le> 1 / 4503599627370496" "s - round_f64 s \<le> 1 / 4503599627370496"
    by linarith+
  have sv: "s - v = round_f64 r - r"
    by (simp add: s_def r_def)
  have "\<bar>round_f64 s - v\<bar> \<le> 1 / 562949953421312"
    using e e' sv by linarith
  then have near: "\<bar>round_f64 s - v\<bar> \<le> 1 / 2 ^ 49"
    by simp
  have "slope_divisor_f64 (Finite a) (Finite v) = Finite (round_f64 s)"
    using x1 d unfolding r_def s_def
    by (simp add: slope_divisor_f64_def fl_sub_def)
  with pos near show ?thesis by blast
qed

lemma divisor_at_one:
  "slope_divisor_f64 (Finite 1) (Finite (5764607523034235 / 2 ^ 59)) = Finite (45035996273705 / 2 ^ 52)"
proof -
  have "fl_round (1 + 5764607523034235 / 2 ^ 59) = Finite (4548635623644201 / 2 ^ 52)"
    by (subst fl_round_eval [of 0]) (simp_all add: rne_def)
  moreover have "fl_round (4548635623644201 / 2 ^ 52 - 1) = Finite (45035996273705 / 2 ^ 52)"
    by (subst fl_round_eval [of "- 7"]) (simp_all add: rne_def)
  ultimately show ?thesis
    by (simp add: slope_divisor_f64_def fl_sub_def)
qed

lemma secant_slopes_f64_nth:
  "i < 20 \<Longrightarrow> secant_slopes_f64 f a ! i =
     secant_slope_f64 (f a) (f (fl_add a (h_vals_f64 ! i))) a (h_vals_f64 ! i)"
  by (simp add: secant_slopes_f64_def length_h_vals_f64)

lemma secant_slope_f64_finite:
  assumes "slope_divisor_f64 (Finite a) h = Finite d" and "d \<noteq> 0"
    and "secant_slope_f64 (Finite y0) (Finite y1) (Finite a) h = Finite s"
  shows "s = round_f64 (round_f64 (y1 - y0) / d)"
proof -
  define n where "n = round_f64 (y1 - y0)"
  have n: "fl_round (y1 - y0) = Finite n"
    using assms unfolding n_def
    by (cases "y1 - y0" rule: fl_round_cases)
       (auto simp: secant_slope_f64_def fl_sub_def split: if_splits)
  have "fl_round (n / d) = Finite s"
    using assms n by (simp add: secant_slope_f64_def fl_sub_def)
  then have "s = round_f64 (n / d)"
    by (cases "n / d" rule: fl_round_cases) simp_all
  then show ?thesis
    unfolding n_def .
qed

lemma h1: "h_vals_f64 ! 1 = Finite (8537876767257119 / 2 ^ 53)"
proof -
  have "fl_round (- (7509159799741964 / 2 ^ 57)) = Finite (- (7509159799741964 / 2 ^ 57))"
    by (subst fl_round_eval [of "- 5"]) (simp_all add: rne_def)
  moreover have "fl_round (- (7509159799741964 / 2 ^ 57) + 1) = Finite (8537876767257119 / 2 ^ 53)"
    by (subst fl_round_eval [of "- 1"]) (simp_all add: rne_def)
  ultimately show ?thesis
    by (simp add: h_vals_f64_nth)
qed

lemma h2: "h_vals_f64 ! 2 = Finite (4034277139886623 / 2 ^ 52)"
proof -
  have "fl_round (2 * - (7509159799741964 / 2 ^ 57)) = Finite (- (7509159799741964 / 2 ^ 56))"
    by (subst fl_round_eval [of "- 4"]) (simp_all add: rne_def)
  moreover have "fl_round (- (7509159799741964 / 2 ^ 56) + 1) = Finite (4034277139886623 / 2 ^ 52)"
    by (subst fl_round_eval [of "- 1"]) (simp_all add: rne_def)
  ultimately show ?thesis
    by (simp add: h_vals_f64_nth)
qed

lemma h1_3x:
  "fl_mul (Finite 3) (fl_add (Finite 1) (Finite (8537876767257119 / 2 ^ 53)))
     = Finite (1644850877062323 / 2 ^ 48)"
proof -
  have x1: "fl_round (1 + 8537876767257119 / 2 ^ 53) = Finite (548283625687441 / 2 ^ 48)"
    by (subst fl_round_eval [of 0]) (simp_all add: rne_def)
  have y1: "fl_round (3 * (548283625687441 / 2 ^ 48)) = Finite (1644850877062323 / 2 ^ 48)"
    by (subst fl_round_eval [of 2]) (simp_all add: rne_def)
  show ?thesis
    by (simp only: fl_add.simps fl_mul.simps x1 y1)
qed

lemma slope_3x_1:
  "secant_slope_f64 (fl_mul (Finite 3) (Finite 1))
     (fl_mul (Finite 3) (fl_add (Finite 1) (Finite (8537876767257119 / 2 ^ 53))))
     (Finite 1) (Finite (8537876767257119 / 2 ^ 53)) = Finite 3"
proof -
  have x1: "fl_round (1 + 8537876767257119 / 2 ^ 53) = Finite (548283625687441 / 2 ^ 48)"
    by (subst fl_round_eval [of 0]) (simp_all add: rne_def)
  have y1: "fl_round (3 * (548283625687441 / 2 ^ 48)) = Finite (1644850877062323 / 2 ^ 48)"
    by (subst fl_round_eval [of 2]) (simp_all add: rne_def)
  have n: "fl_round (1644850877062323 / 2 ^ 48 - 3) = Finite (800425946930355 / 2 ^ 48)"
    by (subst fl_round_eval [of 1]) (simp_all add: rne_def)
  have d: "fl_round (548283625687441 / 2 ^ 48 - 1) = Finite (266808648976785 / 2 ^ 48)"
    by (subst fl_round_eval [of "- 1"]) (simp_all add: rne_def)
  have s: "fl_round (800425946930355 / 2 ^ 48 / (266808648976785 / 2 ^ 48)) = Finite 3"
    by simp
  show ?thesis
    unfolding secant_slope_f64_def slope_divisor_f64_def fl_sub_def Let_def
    apply (simp only: fl_add.simps fl_mul.simps fl_neg.simps x1)
    apply (simp only: y1 mult_1_right fl_round_small)
    apply (simp only: fl_add.simps fl_neg.simps)
    apply (simp only: n [simplified diff_conv_add_uminus] d [simplified diff_conv_add_uminus])
    apply (simp add: s [simplified])
    done
qed

lemma slope_3x_2:
  "secant_slope_f64 (fl_mul (Finite 3) (Finite 1))
     (fl_mul (Finite 3) (fl_add (Finite 1) (Finite (4034277139886623 / 2 ^ 52))))
     (Finite 1) (Finite (4034277139886623 / 2 ^ 52)) = Finite (6755399441055743 / 2 ^ 51)"
proof -
  have x1: "fl_round (1 + 4034277139886623 / 2 ^ 52) = Finite (8537876767257119 / 2 ^ 52)"
    by (subst fl_round_eval [of 0]) (simp_all add: rne_def)
  have y1: "fl_round (3 * (8537876767257119 / 2 ^ 52)) = Finite (6403407575442839 / 2 ^ 50)"
    by (subst fl_round_eval [of 2]) (simp_all add: rne_def)
  have n: "fl_round (6403407575442839 / 2 ^ 50 - 3) = Finite (3025707854914967 / 2 ^ 50)"
    by (subst fl_round_eval [of 1]) (simp_all add: rne_def)
  have d: "fl_round (8537876767257119 / 2 ^ 52 - 1) = Finite (4034277139886623 / 2 ^ 52)"
    by (subst fl_round_eval [of "- 1"]) (simp_all add: rne_def)
  have s: "fl_round (3025707854914967 / 2 ^ 50 / (4034277139886623 / 2 ^ 52))
      = Finite (6755399441055743 / 2 ^ 51)"
    by (subst fl_round_eval [of 1]) (simp_all add: rne_def)
  show ?thesis
    unfolding secant_slope_f64_def slope_divisor_f64_def fl_sub_def Let_def
    apply (simp only: fl_add.simps fl_mul.simps fl_neg.simps x1)
    apply (simp only: y1 mult_1_right fl_round_small)
    apply (simp only: fl_add.simps fl_neg.simps)
    apply (simp only: n [simplified diff_conv_add_uminus] d [simplified diff_conv_add_uminus])
    apply (simp add: s [simplified])
    done
qed

lemma slopes_3x_1: "secant_slopes_f64 (fl_mul (Finite 3)) (Finite 1) ! 1 = Finite 3"
proof -
  have lt: "(1 :: nat) < 20" by simp
  show ?thesis
    by (simp only: secant_slopes_f64_nth [OF lt] h1 slope_3x_1)
qed

lemma slopes_3x_2:
  "secant_slopes_f64 (fl_mul (Finite 3)) (Finite 1) ! 2 = Finite (6755399441055743 / 2 ^ 51)"
proof -
  have lt: "(2 :: nat) < 20" by simp
  show ?thesis
    by (simp only: secant_slopes_f64_nth [OF lt] h2 slope_3x_2)
qed

section \<open>The claims\<close>

text \<open>
  C1. When both one-sided limits are computed, the limit calculator reports that the
  limit exists exactly when the left value equals the right value, by the library's
  exact equality of symbolic values and not by a numeric tolerance; otherwise it
  reports that the limit does not exist.
\<close>

theorem limit_verdict:
  assumes "limit S expr p Minus = Inr l" and "limit S expr p Plus = Inr r"
  shows "limit_section S expr p =
           [Header ''Limit Calculator'', Slider ''Choose x-value for limit:'',
            LatexLeftLimit p l, LatexRightLimit p r,
            if l = r then SuccessLimitExists l else ErrorLimitDoesNotExist]
         \<and> (SuccessLimitExists l \<in> set (limit_section S expr p) \<longleftrightarrow> l = r)
         \<and> (ErrorLimitDoesNotExist \<in> set (limit_section S expr p) \<longleftrightarrow> l \<noteq> r)"
  using assms by (simp add: limit_section_def)

theorem limit_verdict_witness:
  "limit_section (stand_in (\<lambda>p d. Inr (case d of Minus \<Rightarrow> - 1 | Plus \<Rightarrow> 1))) ''x'' 0 =
     [Header ''Limit Calculator'', Slider ''Choose x-value for limit:'',
      LatexLeftLimit 0 (- 1), LatexRightLimit 0 1, ErrorLimitDoesNotExist]
   \<and> limit_section (stand_in (\<lambda>p d. Inr p)) ''x'' 2 =
     [Header ''Limit Calculator'', Slider ''Choose x-value for limit:'',
      LatexLeftLimit 2 2, LatexRightLimit 2 2, SuccessLimitExists 2]"
  using limit_verdict [of "stand_in (\<lambda>p d. Inr (case d of Minus \<Rightarrow> - 1 | Plus \<Rightarrow> 1))" "''x''" 0 "- 1" 1]
    limit_verdict [of "stand_in (\<lambda>p d. Inr p)" "''x''" 2 2 2]
  by (simp add: stand_in_def)

text \<open>
  C2. When the text cannot be parsed, the rerun shows the top of the page and the
  parse error, and stops there: nothing of a later section is computed or shown, and
  the rerun ends by \<^verbatim>\<open>st.stop()\<close>, not by an uncaught exception.
\<close>

theorem parse_failure_stops:
  assumes "sympify S (func_input w) = Inl e"
  shows "run S w = (page_top @ [ErrorParse e], Inl Stopped)"
  using assms by (simp add: run_def parse_stage_def parse_failed_def)

theorem parse_failure_stops_witness:
  "run (stand_in (\<lambda>p d. Inr p)) (moved ''(('' 1 1 True) =
     ([PageConfig, Title, Expander ''About This Project'',
       SidebarHeader ''Function Settings'', TextInput ''Enter a function of x:'',
       ErrorParse ''SympifyError''], Inl Stopped)"
  using parse_failure_stops [of "stand_in (\<lambda>p d. Inr p)" "moved ''(('' 1 1 True" "''SympifyError''"]
  by (simp add: stand_in_def moved_def page_top_def)

text \<open>
  C3, as amended. Line 89 computes the tangent in doubles. When \<open>f(a)\<close> and \<open>f'(a)\<close> are
  finite, the expression \<^verbatim>\<open>f(a) + f_prime(a) * (x - a)\<close> at \<open>x = a\<close> is \<open>f(a)\<close> exactly, and so
  is the sample at a grid point equal to \<open>a\<close>. Every finite sample is the
  expression at its grid point with each of its three operations rounded to the nearest
  double (\<open>round_f64\<close>, which moves a number by half a \<open>quantum\<close> at most), so the
  samples have the slope \<open>f'(a)\<close> up to rounding only. When \<open>f'(a)\<close> is an infinity or
  NaN, the expression at \<open>x = a\<close> is NaN.
\<close>

theorem tangent_f64_at_point:
  assumes "is_f64 fa"
  shows "tangent_at_f64 (Finite fa) (Finite fpa) (Finite a) (Finite a) = Finite fa
    \<and> length (tangent_line_f64 (Finite fa) (Finite fpa) (Finite a)) = 400
    \<and> (\<forall>i<400. x_vals_f64 ! i = Finite a \<longrightarrow>
          tangent_line_f64 (Finite fa) (Finite fpa) (Finite a) ! i = Finite fa)
    \<and> (\<forall>i<400. \<forall>x t. x_vals_f64 ! i = Finite x \<longrightarrow>
          tangent_line_f64 (Finite fa) (Finite fpa) (Finite a) ! i = Finite t \<longrightarrow>
          t = round_f64 (fa + round_f64 (fpa * round_f64 (x - a))))
    \<and> (\<forall>y s. (\<forall>v. s \<noteq> Finite v) \<longrightarrow> tangent_at_f64 y s (Finite a) (Finite a) = NaN)"
proof (intro conjI allI impI)
  show "tangent_at_f64 y s (Finite a) (Finite a) = NaN" if "\<forall>v. s \<noteq> Finite v" for y s
    using that by (cases s; cases y) (simp_all add: tangent_at_f64_def fl_sub_def)
next
  show at: "tangent_at_f64 (Finite fa) (Finite fpa) (Finite a) (Finite a) = Finite fa"
    using assms by (simp add: tangent_at_f64_def fl_sub_def fl_round_is_f64)
  show "length (tangent_line_f64 (Finite fa) (Finite fpa) (Finite a)) = 400"
    by (simp add: tangent_line_f64_def length_x_vals_f64)
  show "tangent_line_f64 (Finite fa) (Finite fpa) (Finite a) ! i = Finite fa"
    if "i < 400" "x_vals_f64 ! i = Finite a" for i
    by (simp only: tangent_line_f64_nth [OF that(1)] that(2) at)
next
  fix i x t
  assume i: "i < 400" and x: "x_vals_f64 ! i = Finite x"
    and "tangent_line_f64 (Finite fa) (Finite fpa) (Finite a) ! i = Finite t"
  then have "tangent_at_f64 (Finite fa) (Finite fpa) (Finite a) (Finite x) = Finite t"
    by (simp only: tangent_line_f64_nth [OF i] x)
  then show "t = round_f64 (fa + round_f64 (fpa * round_f64 (x - a)))"
    by (rule tangent_f64_finite)
qed

theorem tangent_f64_at_point_witness:
  "is_f64 3
   \<and> tangent_at_f64 (Finite 3) (Finite 3) (Finite 10) (Finite 10) = Finite 3
   \<and> x_vals_f64 ! 399 = Finite 10
   \<and> tangent_line_f64 (Finite 3) (Finite 3) (Finite 10) ! 399 = Finite 3
   \<and> x_vals_f64 ! 0 = Finite (- 10)
   \<and> tangent_line_f64 (Finite 3) (Finite 3) (Finite 10) ! 0 = Finite (- 57)
   \<and> - 57 = round_f64 (3 + round_f64 (3 * round_f64 (- 10 - 10)))
   \<and> tangent_at_f64 (Finite 3) PInf (Finite 10) (Finite 10) = NaN"
proof -
  have f: "is_f64 3"
    using is_f64_int [of 3] by simp
  have i: "(399 :: nat) < 400" by simp
  have j: "(0 :: nat) < 400" by simp
  note t = tangent_f64_at_point [OF f, of 3 10]
  from t have 1: "tangent_at_f64 (Finite 3) (Finite 3) (Finite 10) (Finite 10) = Finite 3"
    by (rule conjunct1)
  from t have "\<forall>i<400. x_vals_f64 ! i = Finite 10 \<longrightarrow>
      tangent_line_f64 (Finite 3) (Finite 3) (Finite 10) ! i = Finite 3"
    by (rule conjunct2 [THEN conjunct2, THEN conjunct1])
  from this [rule_format, OF i x_vals_f64_last_nth]
  have 2: "tangent_line_f64 (Finite 3) (Finite 3) (Finite 10) ! 399 = Finite 3" .
  from t have "\<forall>i<400. \<forall>x t. x_vals_f64 ! i = Finite x \<longrightarrow>
          tangent_line_f64 (Finite 3) (Finite 3) (Finite 10) ! i = Finite t \<longrightarrow>
          t = round_f64 (3 + round_f64 (3 * round_f64 (x - 10)))"
    by (rule conjunct2 [THEN conjunct2, THEN conjunct2, THEN conjunct1])
  from this [rule_format, OF j x_vals_f64_first_nth tangent_line_sample]
  have 3: "- 57 = round_f64 (3 + round_f64 (3 * round_f64 (- 10 - 10)))" .
  have inf: "\<forall>v. PInf \<noteq> Finite v" by simp
  from t have "\<forall>y s. (\<forall>v. s \<noteq> Finite v) \<longrightarrow> tangent_at_f64 y s (Finite 10) (Finite 10) = NaN"
    by (rule conjunct2 [THEN conjunct2, THEN conjunct2, THEN conjunct2])
  from this [rule_format, of PInf "Finite 3", OF inf [rule_format]]
  have 4: "tangent_at_f64 (Finite 3) PInf (Finite 10) (Finite 10) = NaN" .
  from f 1 x_vals_f64_last_nth 2 x_vals_f64_first_nth tangent_line_sample 3 4 show ?thesis
    by (intro conjI)
qed

text \<open>
  C3, as stated, fails in two ways. When \<open>f'(a)\<close> is infinite (\<^verbatim>\<open>sqrt(100 - x**2)\<close> at the
  end \<open>a = 10\<close> of the slider, which is the last grid point, with \<open>f(a) = 0\<close>), the
  sample at \<open>a\<close> is \<^verbatim>\<open>-inf * 0 = nan\<close>, not \<open>f(a)\<close>. And the samples need not have the slope
  \<open>f'(a)\<close>: with \<open>f(a) = 0\<close>, \<open>a = 0\<close> and \<open>f'(a)\<close> the double nearest to one tenth, the
  samples at the two ends of the grid are -1 and 1, whose slope is one tenth, which
  is not that double.
\<close>

theorem tangent_f64_not_exact:
  "last x_vals_f64 = Finite 10
   \<and> tangent_at_f64 (Finite 0) NInf (Finite 10) (Finite 10) = NaN
   \<and> hd x_vals_f64 = Finite (- 10)
   \<and> tangent_at_f64 (Finite 0) (fl_round (1 / 10)) (Finite 0) (Finite 10) = Finite 1
   \<and> tangent_at_f64 (Finite 0) (fl_round (1 / 10)) (Finite 0) (Finite (- 10)) = Finite (- 1)
   \<and> fl_round (1 / 10) \<noteq> Finite ((1 - (- 1)) / (10 - (- 10)))"
proof -
  have "tangent_at_f64 (Finite 0) NInf (Finite 10) (Finite 10) = NaN"
    by (simp add: tangent_at_f64_def fl_sub_def)
  moreover have "tangent_at_f64 (Finite 0) (fl_round (1 / 10)) (Finite 0) (Finite 10) = Finite 1"
    unfolding tenth tangent_at_f64_def fl_sub_def
    by (simp add: tenth_times_ten [simplified] )
  moreover have "tangent_at_f64 (Finite 0) (fl_round (1 / 10)) (Finite 0) (Finite (- 10)) = Finite (- 1)"
    unfolding tenth tangent_at_f64_def fl_sub_def
    by (simp add: tenth_times_minus_ten [simplified])
  moreover have "fl_round (1 / 10) \<noteq> Finite ((1 - (- 1)) / (10 - (- 10)))"
    unfolding tenth by simp
  ultimately show ?thesis
    by (simp only: last_x_vals_f64 hd_x_vals_f64 simp_thms)
qed

text \<open>
  C4. The grid has 400 entries, but for the text \<^verbatim>\<open>5\<close> the evaluation over the grid is
  the single number 5, not a sequence of 400 values: the tangent and the secant are
  broadcast against the grid and have 400 entries, \<^verbatim>\<open>y_vals\<close> does not, and the first
  plot of it aborts the rerun.
\<close>

theorem constant_expression_not_sampled:
  "length x_vals = 400
   \<and> array_call (constant_callable 5) x_vals = Inr (Scalar 5)
   \<and> length (tangent_line 5 0 1) = 400
   \<and> run (stand_in (\<lambda>p d. Inr 5)) (moved ''5'' 1 1 False) =
       (page_top @ learn_the_concepts @
        [Header ''Tangent Line Visualizer'', Slider ''Choose x-value for tangent:''],
        Inl (Crashed ''ValueError: x and y must have same first dimension''))"
proof -
  have "plot x_vals (Scalar 5) = Inl ''ValueError: x and y must have same first dimension''"
    by (simp add: plot_def length_x_vals)
  then have "tangent_section (constant_callable 5) (constant_callable 0) ''0'' (Scalar 5) 1 =
      ([Header ''Tangent Line Visualizer'', Slider ''Choose x-value for tangent:''
        :: (string, real) event],
       Inl (Crashed ''ValueError: x and y must have same first dimension''))"
    by (simp add: tangent_section_def constant_callable_def emit_def)
  moreover have "parse_stage (stand_in (\<lambda>p d. Inr 5)) ''5'' =
      ([], Inr (''5'', constant_callable 5, ''0'', constant_callable 0))"
    by (simp add: parse_stage_def stand_in_def)
  moreover have "array_call (constant_callable 5) x_vals = Inr (Scalar 5)"
    by (simp add: constant_callable_def)
  ultimately show ?thesis
    by (simp add: run_def moved_def emit_def length_x_vals tangent_line_def)
qed

text \<open>
  C5. When a limit computation raises, the limit calculator shows the exception and
  the rerun goes on: the animation section runs next, and when that section runs to
  its end the problem set and the last section follow and the rerun completes.
\<close>

theorem limit_error_not_fatal:
  assumes "parse_stage S (func_input w) = ([], Inr (expr, f, f_prime_expr, f_prime))"
    and "array_call f x_vals = Inr y_vals"
    and "tangent_section f f_prime f_prime_expr y_vals (slider_a w) = (tangent_evs, Inr ())"
    and "limit S expr (limit_point w) Minus = Inl e
         \<or> (\<exists>l. limit S expr (limit_point w) Minus = Inr l
                \<and> limit S expr (limit_point w) Plus = Inl e)"
    and "animation_section f y_vals (slider_a w) (run_animation w) = (animation_evs, r)"
  shows "run S w =
           (page_top @ learn_the_concepts @ tangent_evs @
            [Header ''Limit Calculator'', Slider ''Choose x-value for limit:'', ErrorLimit e] @
            animation_evs @
            (case r of Inl h \<Rightarrow> []
             | Inr u \<Rightarrow> problem_set (show_solution w) @ real_world_application),
            r)"
proof -
  have "limit_section S expr (limit_point w) =
      [Header ''Limit Calculator'', Slider ''Choose x-value for limit:'', ErrorLimit e]"
    using assms(4) by (auto simp: limit_section_def)
  then show ?thesis
    using assms(1,2,3,5)
    by (cases r) (simp_all add: run_def emit_def)
qed

theorem limit_error_not_fatal_witness:
  "run (stand_in (\<lambda>p d. Inl ''NotImplementedError'')) (moved ''x'' 1 1 True) =
     (page_top @ learn_the_concepts @
      [Header ''Tangent Line Visualizer'', Slider ''Choose x-value for tangent:'',
       Pyplot [Line x_vals x_vals, Line x_vals (tangent_line 1 1 1), Points [1] [1]],
       MarkdownDerivative ''1'', MarkdownDerivativeAt 1 1] @
      [Header ''Limit Calculator'', Slider ''Choose x-value for limit:'',
       ErrorLimit ''NotImplementedError''] @
      ([Header ''Animation: Secant Line to Tangent'', Button ''Run Animation'', Empty] @
       concat (map (\<lambda>h. [PlaceholderPyplot
           [Line x_vals x_vals, Line x_vals (secant 1 (1 + h) 1 h),
            Points [1, 1 + h] [1, 1 + h]],
           Sleep (2 / 10)]) h_vals)) @
      problem_set (\<lambda>k. False) @ real_world_application,
      Inr ())"
proof -
  let ?S = "stand_in (\<lambda>p d. Inl ''NotImplementedError'')"
  let ?w = "moved ''x'' 1 1 True"
  have w: "func_input ?w = ''x''" "slider_a ?w = 1" "limit_point ?w = 1"
    "run_animation ?w = True" "show_solution ?w = (\<lambda>k. False)"
    by (simp_all add: moved_def)
  have parse: "parse_stage ?S ''x'' =
      ([], Inr (''x'', identity_callable, ''1'', constant_callable 1))"
    by (simp add: parse_stage_def stand_in_def)
  have grid: "array_call identity_callable x_vals = Inr (Array x_vals)"
    by (simp add: identity_callable_def)
  have tangent: "tangent_section identity_callable (constant_callable 1) ''1'' (Array x_vals) 1 =
      ([Header ''Tangent Line Visualizer'', Slider ''Choose x-value for tangent:'',
        Pyplot [Line x_vals x_vals, Line x_vals (tangent_line 1 1 1), Points [1] [1]],
        MarkdownDerivative ''1'', MarkdownDerivativeAt 1 1 :: (string, real) event], Inr ())"
    by (rule tangent_section_ok)
       (simp_all add: identity_callable_def constant_callable_def)
  have raised: "limit ?S ''x'' 1 Minus = Inl ''NotImplementedError''
      \<or> (\<exists>l. limit ?S ''x'' 1 Minus = Inr l
             \<and> limit ?S ''x'' 1 Plus = Inl ''NotImplementedError'')"
    by (simp add: stand_in_def)
  have animation: "animation_section identity_callable (Array x_vals) 1 True =
      ([Header ''Animation: Secant Line to Tangent'', Button ''Run Animation'', Empty] @
       concat (map (\<lambda>h. [PlaceholderPyplot
           [Line x_vals x_vals, Line x_vals (secant 1 (1 + h) 1 h),
            Points [1, 1 + h] [1, 1 + h]],
           Sleep (2 / 10) :: (string, real) event]) h_vals), Inr ())"
    by (rule animation_section_ok) (simp_all add: identity_callable_def)
  from limit_error_not_fatal [of ?S ?w, unfolded w, OF parse grid tangent raised animation]
  show ?thesis
    by simp
qed

text \<open>
  C6. When the button is pressed and \<open>f\<close> evaluates at every point the loop asks for,
  the animation is one frame and one pause of 0.2 for each of the 20 values of \<open>h\<close>, in
  order, and then the section is over; the values of \<open>h\<close> descend from 1 to 0.01.
\<close>

theorem animation_twenty_frames:
  assumes "plot x_vals y_vals = Inr curve" and "scalar_call f a = Inr (g a)"
    and "\<forall>h\<in>set h_vals. scalar_call f (a + h) = Inr (g (a + h))"
  shows "animation_section f y_vals a True =
           ([Header ''Animation: Secant Line to Tangent'', Button ''Run Animation'', Empty] @
            concat (map (\<lambda>h. [PlaceholderPyplot
                [curve, Line x_vals (secant (g a) (g (a + h)) a h),
                 Points [a, a + h] [g a, g (a + h)]],
                Sleep (2 / 10)]) h_vals), Inr ())
         \<and> length h_vals = 20 \<and> hd h_vals = 1 \<and> last h_vals = 1 / 100
         \<and> sorted_wrt (\<lambda>h h'. h' < h) h_vals"
  using animation_section_ok [OF assms]
  by (simp add: length_h_vals hd_h_vals last_h_vals h_vals_descending)

theorem animation_twenty_frames_witness:
  "length (fst (animation_section identity_callable (Array x_vals) 1 True
      :: ((string, real) event, unit) script)) = 43
   \<and> snd (animation_section identity_callable (Array x_vals) 1 True
      :: ((string, real) event, unit) script) = Inr ()"
proof -
  have "animation_section identity_callable (Array x_vals) 1 True =
          ([Header ''Animation: Secant Line to Tangent'', Button ''Run Animation'', Empty] @
            concat (map (\<lambda>h. [PlaceholderPyplot
                [Line x_vals x_vals, Line x_vals (secant 1 (1 + h) 1 h),
                 Points [1, 1 + h] [1, 1 + h]],
                Sleep (2 / 10) :: (string, real) event]) h_vals), Inr ())"
    by (rule animation_twenty_frames [THEN conjunct1])
       (simp_all add: identity_callable_def)
  then show ?thesis
    by (simp add: length_concat_pairs length_h_vals)
qed




text \<open>
  C9. The launcher starts the server and then opens the browser, but the path it
  passes is the same absolute path wherever the launcher lies: for a launcher in
  \<^verbatim>\<open>/opt/calcs\<close> it is not a path in \<^verbatim>\<open>/opt/calcs\<close>.
\<close>

theorem launcher_path_fixed:
  "dirname ''/opt/calcs/run_app.py'' = ''/opt/calcs''
   \<and> app_path ''/opt/calcs/run_app.py'' = ''/home/execu/Programming/CalCS/jb/main.py''
   \<and> launcher ''/opt/calcs/run_app.py'' =
       [Popen (''streamlit run '' @ [CHR 0x22] @
               ''/home/execu/Programming/CalCS/jb/main.py'' @ [CHR 0x22]),
        OpenBrowser ''http://localhost:8501'']"
  by (simp add: launcher_def app_path_def join_def dirname_def rstrip_slash_def)

text \<open>
  C10, as amended. For a slider point \<open>a\<close> between -10 and 10, in each of the 20 passes
  of the loop the divisor \<open>x1 - x0\<close> of the slope, computed in doubles as
  \<^verbatim>\<open>(a + h) - a\<close>, is finite, strictly positive and within \<open>2\<^sup>-\<^sup>4\<^sup>9\<close> of \<open>h\<close>.
\<close>

theorem divisor_f64_positive:
  assumes "\<bar>a\<bar> \<le> 10"
  shows "length h_vals_f64 = 20
    \<and> (\<forall>h\<in>set h_vals_f64. \<exists>v d. h = Finite v \<and> slope_divisor_f64 (Finite a) h = Finite d
          \<and> 0 < d \<and> \<bar>d - v\<bar> \<le> 1 / 2 ^ 49)"
proof
  show "length h_vals_f64 = 20" by (rule length_h_vals_f64)
next
  show "\<forall>h\<in>set h_vals_f64. \<exists>v d. h = Finite v \<and> slope_divisor_f64 (Finite a) h = Finite d
          \<and> 0 < d \<and> \<bar>d - v\<bar> \<le> 1 / 2 ^ 49"
  proof
    fix h assume "h \<in> set h_vals_f64"
    then obtain v where v: "h = Finite v" "1 / 128 \<le> v" "v \<le> 2"
      using h_vals_f64_bounds by blast
    from divisor_near [OF assms v(2,3)] v(1)
    show "\<exists>v d. h = Finite v \<and> slope_divisor_f64 (Finite a) h = Finite d
          \<and> 0 < d \<and> \<bar>d - v\<bar> \<le> 1 / 2 ^ 49"
      by blast
  qed
qed

theorem divisor_f64_positive_witness:
  "\<bar>1 :: real\<bar> \<le> 10 \<and> last h_vals_f64 \<in> set h_vals_f64
   \<and> (\<exists>v d. last h_vals_f64 = Finite v \<and> slope_divisor_f64 (Finite 1) (last h_vals_f64) = Finite d
          \<and> 0 < d \<and> \<bar>d - v\<bar> \<le> 1 / 2 ^ 49)"
proof -
  have a: "\<bar>1 :: real\<bar> \<le> 10" by simp
  have m: "last h_vals_f64 \<in> set h_vals_f64"
    by (rule last_in_set) (simp add: h_vals_f64_eq)
  from divisor_f64_positive [OF a, THEN conjunct2, THEN bspec, OF m] a m
  show ?thesis by (intro conjI)
qed

text \<open>
  C10, as stated, fails at \<open>a = 1.0\<close> in the last pass: \<open>h\<close> is the double nearest to 0.01,
  and \<^verbatim>\<open>(1.0 + h) - 1.0\<close> is 0.010000000000000009, another double.
\<close>

theorem divisor_f64_not_h:
  "slope_divisor_f64 (Finite 1) (last h_vals_f64) = Finite (45035996273705 / 2 ^ 52)
   \<and> last h_vals_f64 = Finite (5764607523034235 / 2 ^ 59)
   \<and> slope_divisor_f64 (Finite 1) (last h_vals_f64) \<noteq> last h_vals_f64"
  unfolding last_h_vals_f64 divisor_at_one by simp

end
